theory Spec2Isabelle
  imports Main "HOL-Library.Word" "HOL-Library.Log_Nat" "HOL-Library.AList" "HOL-Library.Multiset"
begin

section \<open>JavaScript strings\<close>

text \<open>
  A JavaScript string is a sequence of UTF-16 code units. \<open>js\<close> writes an ASCII
  literal of the source as such a sequence.
\<close>

type_synonym jschar = "16 word"
type_synonym jsstring = "jschar list"

definition js :: "string \<Rightarrow> jsstring" where
  "js s = map of_char s"

text \<open>
  The class \<^verbatim>\<open>\s\<close> of a regular expression and the characters that
  \<^verbatim>\<open>String.prototype.trim\<close> strips are the same set: WhiteSpace and LineTerminator
  of ECMAScript (tab, LF, VT, FF, CR, space, NBSP, U+1680, U+2000 to U+200A, U+2028, U+2029,
  U+202F, U+205F, U+3000, U+FEFF).
\<close>

definition isSpace :: "jschar \<Rightarrow> bool" where
  "isSpace c \<longleftrightarrow>
     c \<in> {0x09, 0x0A, 0x0B, 0x0C, 0x0D, 0x20, 0xA0, 0x1680, 0x2028, 0x2029, 0x202F, 0x205F,
          0x3000, 0xFEFF}
     \<or> (0x2000 \<le> c \<and> c \<le> 0x200A)"

text \<open>The class \<^verbatim>\<open>\d\<close>: the ASCII digits.\<close>

definition isDigit :: "jschar \<Rightarrow> bool" where
  "isDigit c \<longleftrightarrow> 0x30 \<le> c \<and> c \<le> 0x39"

definition newline :: jschar where
  "newline = 0x0A"

text \<open>\<^verbatim>\<open>s.trim()\<close>\<close>

definition trim :: "jsstring \<Rightarrow> jsstring" where
  "trim s = rev (dropWhile isSpace (rev (dropWhile isSpace s)))"

text \<open>\<^verbatim>\<open>s.startsWith(p)\<close>\<close>

definition startsWith :: "jsstring \<Rightarrow> jsstring \<Rightarrow> bool" where
  "startsWith s p \<longleftrightarrow> take (length p) s = p"

text \<open>
  \<^verbatim>\<open>s.split(c)\<close> for a separator of one code unit: the pieces between the
  occurrences of \<open>c\<close>; the empty string gives one empty piece.
\<close>

fun splitChar :: "jschar \<Rightarrow> jsstring \<Rightarrow> jsstring list" where
  "splitChar c [] = [[]]"
| "splitChar c (x # xs) =
     (if x = c then [] # splitChar c xs
      else (case splitChar c xs of
              [] \<Rightarrow> [[x]]
            | p # ps \<Rightarrow> (x # p) # ps))"

section \<open>Regular expressions\<close>

text \<open>
  Every regular expression of the program is a sequence of character classes, each with
  a greedy quantifier \<^verbatim>\<open>{lo,hi}\<close> (\<open>None\<close>: no upper bound), around at most one
  capture group. \<open>matchItems\<close> matches such a sequence at the start of a string, with
  the backtracking of ECMAScript: a quantifier first takes as many code units as it can
  and gives them back one by one while the rest of the pattern fails. The result lists
  the code units each item consumed.
\<close>

datatype item = Rep "jschar \<Rightarrow> bool" nat "nat option"

primrec retry ::
  "(jsstring \<Rightarrow> jsstring list option) \<Rightarrow> jsstring \<Rightarrow> nat \<Rightarrow> nat \<Rightarrow> jsstring list option" where
  "retry m s lo 0 =
     (case m (drop lo s) of
        Some parts \<Rightarrow> Some (take lo s # parts)
      | None \<Rightarrow> None)"
| "retry m s lo (Suc d) =
     (case m (drop (lo + Suc d) s) of
        Some parts \<Rightarrow> Some (take (lo + Suc d) s # parts)
      | None \<Rightarrow> retry m s lo d)"

primrec matchItems :: "item list \<Rightarrow> jsstring \<Rightarrow> jsstring list option" where
  "matchItems [] s = Some []"
| "matchItems (it # its) s =
     (case it of Rep p lo hi \<Rightarrow>
        (let run = length (takeWhile p s);
             n = (case hi of None \<Rightarrow> run | Some h \<Rightarrow> min run h)
         in if n < lo then None else retry (matchItems its) s lo (n - lo)))"

definition chr :: "jschar \<Rightarrow> item" where
  "chr c = Rep (\<lambda>x. x = c) 1 (Some 1)"

definition lit :: "string \<Rightarrow> item list" where
  "lit s = map (\<lambda>c. chr (of_char c)) s"

definition digits :: "nat \<Rightarrow> item" where
  "digits n = Rep isDigit n (Some n)"

text \<open>
  A regular expression with its capture group 1: the items before the group, the items
  of the group, the items after it.
\<close>

type_synonym regex = "item list \<times> item list \<times> item list"

fun execAt :: "regex \<Rightarrow> jsstring \<Rightarrow> jsstring option" where
  "execAt (pre, grp, post) s =
     (case matchItems (pre @ grp @ post) s of
        None \<Rightarrow> None
      | Some parts \<Rightarrow> Some (concat (take (length grp) (drop (length pre) parts))))"

text \<open>
  \<^verbatim>\<open>s.match(re)\<close> for a regular expression without flags: the leftmost match,
  tried at every index from 0 to the length of the string. The result is capture group 1
  (\<open>match[1]\<close>), \<open>None\<close> for \<open>null\<close>.
\<close>

fun regexMatch :: "regex \<Rightarrow> jsstring \<Rightarrow> jsstring option" where
  "regexMatch re s =
     (case execAt re s of
        Some g \<Rightarrow> Some g
      | None \<Rightarrow> (case s of [] \<Rightarrow> None | x # t \<Rightarrow> regexMatch re t))"

text \<open>
  \<^verbatim>\<open>s.split(re)\<close> for a regular expression without capture groups, as
  \<^verbatim>\<open>RegExp.prototype[Symbol.split]\<close> runs it: \<open>acc\<close> holds the code units from
  the end \<open>p\<close> of the last separator to the current index \<open>q\<close>, \<open>s\<close> the string from
  \<open>q\<close> on. A match at \<open>q\<close> that ends at \<open>p\<close> (an empty match right after a separator) is
  skipped.
\<close>

function splitLoop :: "item list \<Rightarrow> jsstring \<Rightarrow> jsstring \<Rightarrow> jsstring list" where
  "splitLoop its acc s =
     (if s = [] then [acc]
      else (case matchItems its s of
              None \<Rightarrow> splitLoop its (acc @ [hd s]) (tl s)
            | Some parts \<Rightarrow>
                (if concat parts = [] \<and> acc = [] then splitLoop its (acc @ [hd s]) (tl s)
                 else acc # splitLoop its [] (drop (length (concat parts)) s))))"
  by pat_completeness auto
termination
proof (relation "measure (\<lambda>(its, acc, s). 2 * length s + (if acc = [] then 0 else 1))")
  fix its :: "item list" and acc s :: jsstring and parts :: "jsstring list"
  assume s: "s \<noteq> []" and progress: "\<not> (concat parts = [] \<and> acc = [])"
  define m where "m = concat parts"
  have "2 * length (drop (length m) s) < 2 * length s + (if acc = [] then 0 else 1)"
  proof (cases m)
    case Nil
    with progress show ?thesis by (simp add: m_def)
  next
    case (Cons x xs)
    with s show ?thesis by (cases s) auto
  qed
  then show "((its, [], drop (length (concat parts)) s), (its, acc, s))
      \<in> measure (\<lambda>(its, acc, s). 2 * length s + (if acc = [] then 0 else 1))"
    by (simp add: m_def)
qed (auto simp: neq_Nil_conv)

definition regexSplit :: "item list \<Rightarrow> jsstring \<Rightarrow> jsstring list" where
  "regexSplit its s =
     (if s = [] then (case matchItems its [] of Some parts \<Rightarrow> [] | None \<Rightarrow> [s])
      else splitLoop its [] s)"

section \<open>Numbers\<close>

text \<open>
  A Number is an IEEE 754 double: \<open>NaN\<close>, or a finite value, held here as the rational
  it denotes. Every arithmetic operation rounds its exact result to the nearest double,
  ties to the even significand (\<open>fl\<close>, 53 bits). The exponent range, the infinities and
  the sign of zero are left out: a time value is at most 8.64e15 in magnitude and an array
  is shorter than 2^32, so no Number of this program overflows or underflows.
\<close>

datatype number = NaN | Fin rat

definition pow2 :: "int \<Rightarrow> rat" where
  "pow2 e = (if 0 \<le> e then 2 ^ nat e else 1 / 2 ^ nat (- e))"

text \<open>\<open>ilog2 x\<close> is the exponent \<open>e\<close> with \<open>2^e \<le> x < 2^(e+1)\<close>, for \<open>x > 0\<close>.\<close>

definition ilog2 :: "rat \<Rightarrow> int" where
  "ilog2 x =
     (let e = bitlen (fst (quotient_of x)) - bitlen (snd (quotient_of x))
      in if pow2 e \<le> x then e else e - 1)"

definition roundHalfEven :: "rat \<Rightarrow> int" where
  "roundHalfEven x =
     (let f = \<lfloor>x\<rfloor>; d = x - of_int f
      in if d < 1 / 2 then f
         else if 1 / 2 < d then f + 1
         else if even f then f else f + 1)"

definition fl :: "rat \<Rightarrow> rat" where
  "fl x =
     (if x = 0 then 0
      else (let a = \<bar>x\<bar>; u = pow2 (ilog2 a - 52)
            in sgn x * of_int (roundHalfEven (a / u)) * u))"

fun numAdd :: "number \<Rightarrow> number \<Rightarrow> number" where
  "numAdd (Fin x) (Fin y) = Fin (fl (x + y))"
| "numAdd _ _ = NaN"

fun numSub :: "number \<Rightarrow> number \<Rightarrow> number" where
  "numSub (Fin x) (Fin y) = Fin (fl (x - y))"
| "numSub _ _ = NaN"

text \<open>
  Division; the program divides by the number of intervals, which is above 2 there, and
  by 1000, so the quotient by zero (an infinity or NaN) is left as NaN.
\<close>

fun numDiv :: "number \<Rightarrow> number \<Rightarrow> number" where
  "numDiv (Fin x) (Fin y) = (if y = 0 then NaN else Fin (fl (x / y)))"
| "numDiv _ _ = NaN"

text \<open>\<open>numLt a b\<close> is \<^verbatim>\<open>a < b\<close>: false when either side is NaN.\<close>

fun numLt :: "number \<Rightarrow> number \<Rightarrow> bool" where
  "numLt (Fin x) (Fin y) \<longleftrightarrow> x < y"
| "numLt _ _ \<longleftrightarrow> False"

fun mathAbs :: "number \<Rightarrow> number" where
  "mathAbs (Fin x) = Fin \<bar>x\<bar>"
| "mathAbs NaN = NaN"

text \<open>\<^verbatim>\<open>Math.round\<close>: the nearest integer, a tie going up.\<close>

fun mathRound :: "number \<Rightarrow> number" where
  "mathRound (Fin x) = Fin (of_int \<lfloor>x + 1 / 2\<rfloor>)"
| "mathRound NaN = NaN"

definition ofNat :: "nat \<Rightarrow> number" where
  "ofNat n = Fin (of_nat n)"

section \<open>What the engine provides\<close>

text \<open>
  Two built-ins are parameters of the model. \<open>dateParse\<close> is \<^verbatim>\<open>Date.parse\<close>: the
  formats the program hands to it are not the ISO format of ECMAScript, so what it
  returns is left to the engine. \<open>numberFormat\<close> is the conversion of a Number to a string
  for the values that are not integers below 10^21 (the shortest digits that read back
  as the same double).
\<close>

record engine =
  dateParse :: "jsstring \<Rightarrow> number"
  numberFormat :: "rat \<Rightarrow> jsstring"

text \<open>\<open>TimeClip\<close>: a time value is an integer of at most 8.64e15 in magnitude, or NaN.\<close>

fun timeClip :: "number \<Rightarrow> number" where
  "timeClip NaN = NaN"
| "timeClip (Fin x) =
     (if 8640000000000000 < \<bar>x\<bar> then NaN
      else Fin (of_int (if 0 \<le> x then \<lfloor>x\<rfloor> else \<lceil>x\<rceil>)))"

text \<open>
  \<^verbatim>\<open>new Date(s)\<close> for a string: the time value of the Date, NaN for an invalid
  Date. A Date is an object, so it is truthy either way.
\<close>

definition newDate :: "engine \<Rightarrow> jsstring \<Rightarrow> number" where
  "newDate E s = timeClip (dateParse E s)"

function decimal :: "nat \<Rightarrow> jsstring" where
  "decimal n = (if n < 10 then [of_nat (48 + n)] else decimal (n div 10) @ [of_nat (48 + n mod 10)])"
  by pat_completeness auto
termination
  by (relation "measure id") auto

text \<open>The string a template literal puts in for a Number.\<close>

fun numberToString :: "engine \<Rightarrow> number \<Rightarrow> jsstring" where
  "numberToString E NaN = js ''NaN''"
| "numberToString E (Fin x) =
     (if x = of_int \<lfloor>x\<rfloor> \<and> \<bar>x\<bar> < 10 ^ 21
      then (if x < 0 then js ''-'' else []) @ decimal (nat \<bar>\<lfloor>x\<rfloor>\<bar>)
      else numberFormat E x)"

section \<open>The data of the analysis\<close>

record ipRecord =
  ip :: jsstring
  isInternal :: bool
  requests :: "jsstring list"

text \<open>
  An entry of a user's array: \<open>timestamp\<close> is the time value of the Date that
  \<open>extractTimestamp\<close> returned, which is what the subtraction of two Dates reads.
\<close>

record userRequest =
  timestamp :: number
  request :: jsstring

text \<open>\<open>avgInterval\<close> is \<open>None\<close> in the records whose object literal has no such property.\<close>

record userRecord =
  userId :: jsstring
  requestCount :: nat
  isSuspicious :: bool
  reason :: jsstring
  avgInterval :: "number option"

text \<open>
  The object \<open>parseLogContent\<close> returns is kept as the object literal writes it: the
  property names, each with its value.
\<close>

datatype jsvalue =
  IpList "ipRecord list"
| UserList "userRecord list"
| Flag bool
| Count nat
| Object "(string \<times> jsvalue) list"

datatype jsError = TypeError

text \<open>\<^verbatim>\<open>xs.forEach(f)\<close> where the callback updates a state and may throw.\<close>

fun forEachE :: "('s \<Rightarrow> 'a \<Rightarrow> jsError + 's) \<Rightarrow> 'a list \<Rightarrow> 's \<Rightarrow> jsError + 's" where
  "forEachE f [] st = Inr st"
| "forEachE f (x # xs) st =
     (case f st x of
        Inl e \<Rightarrow> Inl e
      | Inr st' \<Rightarrow> forEachE f xs st')"

section \<open>splitIntoBlocks\<close>

text \<open>\<^verbatim>\<open>/\n\s*\n/\<close>\<close>

definition blockSeparator :: "item list" where
  "blockSeparator = [chr newline, Rep isSpace 0 None, chr newline]"

definition splitIntoBlocks :: "jsstring \<Rightarrow> jsstring list" where
  "splitIntoBlocks content =
     filter (\<lambda>block. length block > 0) (map trim (regexSplit blockSeparator content))"

section \<open>analyzeIPs\<close>

text \<open>
  \<^verbatim>\<open>/^(\d{1,3}\.\d{1,3}\.\d{1,3}\.\d{1,3})/\<close>: the group is the whole pattern. The
  assertion \<^verbatim>\<open>^\<close> holds at index 0 only, so the pattern is matched there
  (\<open>execAt\<close>).
\<close>

definition ipPattern :: regex where
  "ipPattern =
     ([],
      [Rep isDigit 1 (Some 3), chr 0x2E, Rep isDigit 1 (Some 3), chr 0x2E,
       Rep isDigit 1 (Some 3), chr 0x2E, Rep isDigit 1 (Some 3)],
      [])"

text \<open>
  The callback of \<open>blocks.forEach\<close>. \<open>lines[0]\<close> of an empty array is
  \<open>undefined\<close>, and \<open>undefined.match\<close> throws a TypeError.
\<close>

definition analyzeIPsBlock :: "ipRecord list \<Rightarrow> jsstring \<Rightarrow> jsError + ipRecord list" where
  "analyzeIPsBlock ips block =
     (case splitChar newline block of
        [] \<Rightarrow> Inl TypeError
      | firstLine # rest \<Rightarrow>
          (case execAt ipPattern firstLine of
             None \<Rightarrow> Inr ips
           | Some a \<Rightarrow>
               (if find (\<lambda>item. ip item = a) ips = None
                then Inr (ips @
                  [\<lparr>ip = a,
                    isInternal = startsWith a (js ''10.''),
                    requests = filter (\<lambda>line. length (trim line) > 0) rest\<rparr>])
                else Inr ips)))"

definition analyzeIPs :: "jsstring list \<Rightarrow> jsError + ipRecord list" where
  "analyzeIPs blocks = forEachE analyzeIPsBlock blocks []"

section \<open>extractTimestamp\<close>

definition hms :: "item list" where
  "hms = [digits 2, chr 0x3A, digits 2, chr 0x3A, digits 2]"

definition ymdhms :: "item list" where
  "ymdhms = [digits 4, chr 0x2D, digits 2, chr 0x2D, digits 2, chr 0x20] @ hms"

definition dmyhms :: "item list" where
  "dmyhms = [digits 2, chr 0x2F, digits 2, chr 0x2F, digits 4, chr 0x20] @ hms"

text \<open>
  \<^verbatim>\<open>/\[(\d{4}-\d{2}-\d{2} \d{2}:\d{2}:\d{2})\]/\<close>,
  \<^verbatim>\<open>/(\d{4}-\d{2}-\d{2} \d{2}:\d{2}:\d{2})/\<close>,
  \<^verbatim>\<open>/\[(\d{2}\/\d{2}\/\d{4} \d{2}:\d{2}:\d{2})\]/\<close>,
  \<^verbatim>\<open>/(\d{2}:\d{2}:\d{2})/\<close>
\<close>

definition patterns :: "regex list" where
  "patterns =
     [(lit ''['', ymdhms, lit '']''),
      ([], ymdhms, []),
      (lit ''['', dmyhms, lit '']''),
      ([], hms, [])]"

fun extractFrom :: "engine \<Rightarrow> regex list \<Rightarrow> jsstring \<Rightarrow> number option" where
  "extractFrom E [] line = None"
| "extractFrom E (pattern # rest) line =
     (case regexMatch pattern line of
        Some g \<Rightarrow> Some (newDate E g)
      | None \<Rightarrow> extractFrom E rest line)"

definition extractTimestamp :: "engine \<Rightarrow> jsstring \<Rightarrow> number option" where
  "extractTimestamp E line = extractFrom E patterns line"

section \<open>analyzeUserBehavior\<close>

text \<open>\<^verbatim>\<open>/user_id=([^&\s]+)/\<close>\<close>

definition userIdPattern :: regex where
  "userIdPattern = (lit ''user_id='', [Rep (\<lambda>c. c \<noteq> 0x26 \<and> \<not> isSpace c) 1 None], [])"

text \<open>
  \<open>userRequests\<close> is an ordinary object used as a dictionary: its own properties, in
  the order they were created, each holding an array. Reading \<open>userRequests[k]\<close> gives
  the own property \<open>k\<close>; without one, the property \<open>k\<close> of \<open>Object.prototype\<close>, which
  for the names below is a function (for \<^verbatim>\<open>__proto__\<close>, the prototype object);
  otherwise \<open>undefined\<close>.
\<close>

type_synonym userRequests = "(jsstring \<times> userRequest list) list"

datatype property = Array "userRequest list" | Inherited | Undefined

definition objectPrototypeKeys :: "jsstring list" where
  "objectPrototypeKeys =
     map js [''constructor'', ''hasOwnProperty'', ''isPrototypeOf'', ''propertyIsEnumerable'',
       ''toLocaleString'', ''toString'', ''valueOf'', ''__proto__'', ''__defineGetter__'',
       ''__defineSetter__'', ''__lookupGetter__'', ''__lookupSetter__'']"

definition getProperty :: "userRequests \<Rightarrow> jsstring \<Rightarrow> property" where
  "getProperty obj k =
     (case map_of obj k of
        Some a \<Rightarrow> Array a
      | None \<Rightarrow> if k \<in> set objectPrototypeKeys then Inherited else Undefined)"

text \<open>An array and a function are truthy, \<open>undefined\<close> is not.\<close>

fun truthy :: "property \<Rightarrow> bool" where
  "truthy (Array a) \<longleftrightarrow> True"
| "truthy Inherited \<longleftrightarrow> True"
| "truthy Undefined \<longleftrightarrow> False"

text \<open>
  The callback of \<open>lines.forEach\<close>. The value \<open>userRequests[userId]\<close> has a method
  \<open>push\<close> only when it is an array: on an inherited function the call throws a
  TypeError.
\<close>

definition analyzeUserLine :: "engine \<Rightarrow> userRequests \<Rightarrow> jsstring \<Rightarrow> jsError + userRequests" where
  "analyzeUserLine E obj line =
     (case (regexMatch userIdPattern line, extractTimestamp E line) of
        (Some u, Some t) \<Rightarrow>
          (let obj1 = (if \<not> truthy (getProperty obj u) then AList.update u [] obj else obj)
           in case getProperty obj1 u of
                Array a \<Rightarrow> Inr (AList.update u (a @ [\<lparr>timestamp = t, request = trim line\<rparr>]) obj1)
              | Inherited \<Rightarrow> Inl TypeError
              | Undefined \<Rightarrow> Inl TypeError)
      | (_, _) \<Rightarrow> Inr obj)"

definition analyzeUserBlock :: "engine \<Rightarrow> userRequests \<Rightarrow> jsstring \<Rightarrow> jsError + userRequests" where
  "analyzeUserBlock E obj block = forEachE (analyzeUserLine E) (splitChar newline block) obj"

section \<open>detectSuspiciousBehavior\<close>

text \<open>
  \<^verbatim>\<open>Object.entries\<close> lists the own properties whose name is an array index (a
  canonical decimal numeral below 2^32 - 1) first, by ascending value, and then the other
  names in the order they were created.
\<close>

definition indexValue :: "jsstring \<Rightarrow> nat" where
  "indexValue k = foldl (\<lambda>n c. 10 * n + unat (c - 0x30)) 0 k"

definition isArrayIndex :: "jsstring \<Rightarrow> bool" where
  "isArrayIndex k \<longleftrightarrow>
     k \<noteq> [] \<and> list_all isDigit k \<and> (hd k \<noteq> 0x30 \<or> length k = 1) \<and> indexValue k < 2 ^ 32 - 1"

definition objectEntries :: "userRequests \<Rightarrow> (jsstring \<times> userRequest list) list" where
  "objectEntries obj =
     sort_key (\<lambda>e. indexValue (fst e)) (filter (\<lambda>e. isArrayIndex (fst e)) obj)
     @ filter (\<lambda>e. \<not> isArrayIndex (fst e)) obj"

text \<open>
  \<^verbatim>\<open>requests.sort((a, b) => a.timestamp - b.timestamp)\<close>: the sort is stable. With
  an invalid Date in the array the comparator returns NaN for some pairs and the order
  ECMAScript leaves is implementation-defined; the array is kept as it is here, and
  \<open>detectEntry_invalid_date\<close> shows that the record does not depend on the order then.
\<close>

fun timeOf :: "number \<Rightarrow> rat" where
  "timeOf (Fin x) = x"
| "timeOf NaN = 0"

definition sortRequests :: "userRequest list \<Rightarrow> userRequest list" where
  "sortRequests rs =
     (if list_all (\<lambda>r. timestamp r \<noteq> NaN) rs then sort_key (\<lambda>r. timeOf (timestamp r)) rs else rs)"

text \<open>The loop that fills \<open>intervals\<close>.\<close>

definition intervalsOf :: "userRequest list \<Rightarrow> number list" where
  "intervalsOf rs = map (\<lambda>i. numSub (timestamp (rs ! i)) (timestamp (rs ! (i - 1)))) [1..<length rs]"

text \<open>\<^verbatim>\<open>intervals.reduce((sum, interval) => sum + interval, 0) / intervals.length\<close>\<close>

definition average :: "number list \<Rightarrow> number" where
  "average intervals = numDiv (foldl numAdd (Fin 0) intervals) (ofNat (length intervals))"

text \<open>The intervals that pass the filter \<^verbatim>\<open>Math.abs(interval - avgInterval) < 2000\<close>.\<close>

definition similar :: "number \<Rightarrow> number list \<Rightarrow> number list" where
  "similar avg intervals = filter (\<lambda>interval. numLt (mathAbs (numSub interval avg)) (Fin 2000)) intervals"

text \<open>
  The part of the callback after the sort, on the sorted array. The literal
  \<^verbatim>\<open>0.7\<close> is the double nearest to 7/10.
\<close>

definition analyzeSorted :: "engine \<Rightarrow> jsstring \<Rightarrow> userRequest list \<Rightarrow> userRecord" where
  "analyzeSorted E u rs =
     (let intervals = intervalsOf rs
      in if length intervals > 2
         then (let avg = average intervals;
                   similarIntervals = length (similar avg intervals);
                   suspicious =
                     (numLt (Fin (fl (7 / 10))) (numDiv (ofNat similarIntervals) (ofNat (length intervals)))
                      \<and> numLt avg (Fin 15000))
               in \<lparr>userId = u,
                   requestCount = length rs,
                   isSuspicious = suspicious,
                   reason =
                     (if suspicious
                      then js ''Repeated API hits every ''
                           @ numberToString E (mathRound (numDiv avg (Fin 1000))) @ js ''s''
                      else js ''Normal activity''),
                   avgInterval = Some (mathRound (numDiv avg (Fin 1000)))\<rparr>)
         else \<lparr>userId = u,
               requestCount = length rs,
               isSuspicious = False,
               reason = js ''Insufficient data'',
               avgInterval = None\<rparr>)"

text \<open>The callback of \<open>Object.entries(userRequests).forEach\<close>: the record it pushes.\<close>

fun detectEntry :: "engine \<Rightarrow> jsstring \<times> userRequest list \<Rightarrow> userRecord" where
  "detectEntry E (u, rs) =
     (if length rs < 2
      then \<lparr>userId = u,
            requestCount = length rs,
            isSuspicious = False,
            reason = js ''Normal activity'',
            avgInterval = None\<rparr>
      else analyzeSorted E u (sortRequests rs))"

definition detectSuspiciousBehavior :: "engine \<Rightarrow> userRequests \<Rightarrow> userRecord list" where
  "detectSuspiciousBehavior E obj = map (detectEntry E) (objectEntries obj)"

definition analyzeUserBehavior :: "engine \<Rightarrow> jsstring list \<Rightarrow> jsError + userRecord list" where
  "analyzeUserBehavior E blocks =
     (case forEachE (analyzeUserBlock E) blocks [] of
        Inl e \<Rightarrow> Inl e
      | Inr obj \<Rightarrow> Inr (detectSuspiciousBehavior E obj))"

section \<open>determineBreach and parseLogContent\<close>

definition determineBreach :: "ipRecord list \<Rightarrow> userRecord list \<Rightarrow> bool" where
  "determineBreach ipAnalysis userAnalysis \<longleftrightarrow>
     list_ex (\<lambda>i. \<not> isInternal i) ipAnalysis \<or> list_ex (\<lambda>user. isSuspicious user) userAnalysis"

definition parseLogContent :: "engine \<Rightarrow> jsstring \<Rightarrow> jsError + (string \<times> jsvalue) list" where
  "parseLogContent E content =
     (let blocks = splitIntoBlocks content
      in case analyzeIPs blocks of
           Inl e \<Rightarrow> Inl e
         | Inr ipAnalysis \<Rightarrow>
             (case analyzeUserBehavior E blocks of
                Inl e \<Rightarrow> Inl e
              | Inr userAnalysis \<Rightarrow>
                  Inr [(''ipAnalysis'', IpList ipAnalysis),
                       (''userAnalysis'', UserList userAnalysis),
                       (''isBreach'', Flag (determineBreach ipAnalysis userAnalysis)),
                       (''stats'', Object
                          [(''totalBlocks'', Count (length blocks)),
                           (''totalIPs'', Count (length ipAnalysis)),
                           (''internalIPs'', Count (length (filter (\<lambda>i. isInternal i) ipAnalysis))),
                           (''externalIPs'', Count (length (filter (\<lambda>i. \<not> isInternal i) ipAnalysis))),
                           (''suspiciousUsers'',
                              Count (length (filter (\<lambda>user. isSuspicious user) userAnalysis)))])]))"

section \<open>The invariant of analyzeIPs\<close>

text \<open>
  What every array \<open>ips\<close> of \<open>analyzeIPs\<close> satisfies: no address twice, and
  \<open>isInternal\<close> set from the prefix "10." of the address.
\<close>

definition wellFormed :: "ipRecord list \<Rightarrow> bool" where
  "wellFormed ips \<longleftrightarrow>
     distinct (map ip ips) \<and> (\<forall>r \<in> set ips. isInternal r \<longleftrightarrow> startsWith (ip r) (js ''10.''))"

section \<open>The rule of the specification in exact arithmetic\<close>





section \<open>Sample inputs\<close>

text \<open>An engine for the examples: every date string is invalid for it.\<close>

definition plainEngine :: engine where
  "plainEngine = \<lparr>dateParse = (\<lambda>s. NaN), numberFormat = (\<lambda>x. [])\<rparr>"

definition twoRequests :: userRequests where
  "twoRequests =
     [(js ''u'', [\<lparr>timestamp = Fin 0, request = js ''a''\<rparr>,
                  \<lparr>timestamp = Fin 5000, request = js ''b''\<rparr>])]"

definition threeRequests :: userRequests where
  "threeRequests =
     [(js ''u'', [\<lparr>timestamp = Fin 0, request = js ''a''\<rparr>,
                  \<lparr>timestamp = Fin 5000, request = js ''b''\<rparr>,
                  \<lparr>timestamp = Fin 10000, request = js ''c''\<rparr>])]"

text \<open>Four requests at 0 s, 5 s, 10 s and 15 s.\<close>

definition fourRequests :: userRequests where
  "fourRequests =
     [(js ''u'', [\<lparr>timestamp = Fin 0, request = js ''a''\<rparr>,
                  \<lparr>timestamp = Fin 5000, request = js ''b''\<rparr>,
                  \<lparr>timestamp = Fin 10000, request = js ''c''\<rparr>,
                  \<lparr>timestamp = Fin 15000, request = js ''d''\<rparr>])]"

text \<open>The same four requests as the log may give them: not in the order of time.\<close>

definition shuffledRequests :: userRequests where
  "shuffledRequests =
     [(js ''u'', [\<lparr>timestamp = Fin 10000, request = js ''c''\<rparr>,
                  \<lparr>timestamp = Fin 0, request = js ''a''\<rparr>,
                  \<lparr>timestamp = Fin 15000, request = js ''d''\<rparr>,
                  \<lparr>timestamp = Fin 5000, request = js ''b''\<rparr>])]"

text \<open>Four requests at 0 s and one at 10 s: the intervals are 0, 0, 0 and 10 s.\<close>

definition burstRequests :: userRequests where
  "burstRequests =
     [(js ''u'', [\<lparr>timestamp = Fin 0, request = js ''a''\<rparr>,
                  \<lparr>timestamp = Fin 0, request = js ''b''\<rparr>,
                  \<lparr>timestamp = Fin 0, request = js ''c''\<rparr>,
                  \<lparr>timestamp = Fin 0, request = js ''d''\<rparr>,
                  \<lparr>timestamp = Fin 10000, request = js ''e''\<rparr>])]"

text \<open>Four requests whose timestamps are invalid Dates.\<close>

definition undatedRequests :: userRequests where
  "undatedRequests =
     [(js ''u'', [\<lparr>timestamp = NaN, request = js ''a''\<rparr>,
                  \<lparr>timestamp = NaN, request = js ''b''\<rparr>,
                  \<lparr>timestamp = NaN, request = js ''c''\<rparr>,
                  \<lparr>timestamp = NaN, request = js ''d''\<rparr>])]"

text \<open>
  Three blocks, each led by an address: one in 10/8, one in 172.16/12, one in
  192.168/16.
\<close>

definition mixedLog :: jsstring where
  "mixedLog = js ''10.0.0.1 a\<newline>\<newline>172.16.0.1 b\<newline>\<newline>192.168.1.1 c''"

definition mixedBlocks :: "jsstring list" where
  "mixedBlocks = [js ''10.0.0.1 a'', js ''172.16.0.1 b'', js ''192.168.1.1 c'']"

definition mixedIPs :: "ipRecord list" where
  "mixedIPs =
     [\<lparr>ip = js ''10.0.0.1'', isInternal = True, requests = []\<rparr>,
      \<lparr>ip = js ''172.16.0.1'', isInternal = False, requests = []\<rparr>,
      \<lparr>ip = js ''192.168.1.1'', isInternal = False, requests = []\<rparr>]"

text \<open>A log of one block with an address in 10/8.\<close>

definition internalLog :: jsstring where
  "internalLog = js ''10.0.0.1 a''"

text \<open>Two blocks that start with the same address, and the record of the first.\<close>

definition firstBlock :: jsstring where
  "firstBlock = js ''10.0.0.1\<newline>a''"

definition secondBlock :: jsstring where
  "secondBlock = js ''10.0.0.1\<newline>b''"

definition firstRecord :: ipRecord where
  "firstRecord = \<lparr>ip = js ''10.0.0.1'', isInternal = True, requests = [js ''a'']\<rparr>"


text \<open>A line whose user id is the name of a property of \<open>Object.prototype\<close>.\<close>

definition reservedLog :: jsstring where
  "reservedLog = js ''user_id=constructor 10:30:45''"

text \<open>A text of two lines without a blank line, and a text of white space only.\<close>

definition twoLines :: jsstring where
  "twoLines = js ''a\<newline>b''"

definition blankLines :: jsstring where
  "blankLines = js '' \<newline>\<newline> ''"

text \<open>The objects that \<open>parseLogContent\<close> returns for \<open>mixedLog\<close> and \<open>internalLog\<close>.\<close>

definition mixedResult :: "(string \<times> jsvalue) list" where
  "mixedResult =
     [(''ipAnalysis'', IpList mixedIPs),
      (''userAnalysis'', UserList []),
      (''isBreach'', Flag True),
      (''stats'', Object
         [(''totalBlocks'', Count 3), (''totalIPs'', Count 3), (''internalIPs'', Count 1),
          (''externalIPs'', Count 2), (''suspiciousUsers'', Count 0)])]"

definition internalResult :: "(string \<times> jsvalue) list" where
  "internalResult =
     [(''ipAnalysis'', IpList [\<lparr>ip = js ''10.0.0.1'', isInternal = True, requests = []\<rparr>]),
      (''userAnalysis'', UserList []),
      (''isBreach'', Flag False),
      (''stats'', Object
         [(''totalBlocks'', Count 1), (''totalIPs'', Count 1), (''internalIPs'', Count 1),
          (''externalIPs'', Count 0), (''suspiciousUsers'', Count 0)])]"

section \<open>Basic facts\<close>

text \<open>The recursive equations are unfolded on demand only.\<close>

declare regexMatch.simps [simp del] splitLoop.simps [simp del] decimal.simps [simp del]

lemma length_sortRequests: "length (sortRequests rs) = length rs"
  by (simp add: sortRequests_def)

lemma length_intervalsOf: "length (intervalsOf rs) = length rs - 1"
  by (simp add: intervalsOf_def)

lemma isArrayIndex_u: "\<not> isArrayIndex (js ''u'')"
  by (simp add: isArrayIndex_def js_def isDigit_def)

lemma objectEntries_twoRequests: "objectEntries twoRequests = twoRequests"
  by (simp add: objectEntries_def twoRequests_def isArrayIndex_u)

lemma objectEntries_threeRequests: "objectEntries threeRequests = threeRequests"
  by (simp add: objectEntries_def threeRequests_def isArrayIndex_u)

lemma objectEntries_fourRequests: "objectEntries fourRequests = fourRequests"
  by (simp add: objectEntries_def fourRequests_def isArrayIndex_u)

lemma objectEntries_shuffledRequests: "objectEntries shuffledRequests = shuffledRequests"
  by (simp add: objectEntries_def shuffledRequests_def isArrayIndex_u)

lemma objectEntries_burstRequests: "objectEntries burstRequests = burstRequests"
  by (simp add: objectEntries_def burstRequests_def isArrayIndex_u)

lemma objectEntries_undatedRequests: "objectEntries undatedRequests = undatedRequests"
  by (simp add: objectEntries_def undatedRequests_def isArrayIndex_u)

subsection \<open>Rounding is exact on the integers below 2^53\<close>

lemma roundHalfEven_of_int: "roundHalfEven (of_int m) = m"
  by (simp add: roundHalfEven_def)

lemma pow2_nonpos: "e \<le> 0 \<Longrightarrow> pow2 e = 1 / 2 ^ nat (- e)"
  by (cases "e = 0") (simp_all add: pow2_def)

lemma ilog2_of_int:
  assumes "0 < n"
  shows "ilog2 (of_int n) = bitlen n - 1"
proof -
  have b: "1 \<le> bitlen n"
    using assms by (simp add: bitlen_alt_def)
  have "(2::int) ^ nat (bitlen n - 1) \<le> n"
    using bitlen_bounds [OF assms] by simp
  then have "(of_int ((2::int) ^ nat (bitlen n - 1)) :: rat) \<le> of_int n"
    by (simp only: of_int_le_iff)
  then have "pow2 (bitlen n - 1) \<le> of_int n"
    using b by (simp add: pow2_def)
  moreover have "bitlen 1 = 1"
    by (simp add: bitlen_alt_def)
  ultimately show ?thesis
    by (simp add: ilog2_def)
qed

lemma fl_of_int_pos:
  assumes "0 < n" and "n < 2 ^ 53"
  shows "fl (of_int n) = of_int n"
proof -
  define k where "k = nat (53 - bitlen n)"
  have b: "bitlen n \<le> 53"
    using assms by (simp add: bitlen_le_iff_power)
  have u: "pow2 (ilog2 (of_int n) - 52) = 1 / 2 ^ k"
    using b assms(1) by (simp add: ilog2_of_int pow2_nonpos k_def algebra_simps)
  have "\<bar>of_int n :: rat\<bar> / (1 / 2 ^ k) = of_int (n * 2 ^ k)"
    using assms(1) by simp
  then have "roundHalfEven (\<bar>of_int n :: rat\<bar> / (1 / 2 ^ k)) = n * 2 ^ k"
    by (simp only: roundHalfEven_of_int)
  then show ?thesis
    using assms(1) by (simp add: fl_def u Let_def)
qed

lemma fl_minus: "fl (- x) = - fl x"
  by (simp add: fl_def Let_def)

lemma fl_of_int:
  assumes "\<bar>n\<bar> < 2 ^ 53"
  shows "fl (of_int n) = of_int n"
proof -
  consider "n = 0" | "0 < n" | "n < 0" by linarith
  then show ?thesis
  proof cases
    case 1
    then show ?thesis by (simp add: fl_def)
  next
    case 2
    with assms show ?thesis by (simp add: fl_of_int_pos)
  next
    case 3
    with assms have "fl (of_int (- n)) = of_int (- n)"
      by (intro fl_of_int_pos) simp_all
    then show ?thesis
      using fl_minus [of "of_int n"] by simp
  qed
qed

lemma fl_numeral: "(numeral w :: int) < 2 ^ 53 \<Longrightarrow> fl (numeral w) = numeral w"
  using fl_of_int [of "numeral w"] by simp

lemma fl_zero: "fl 0 = 0" and fl_one: "fl 1 = 1"
  using fl_of_int [of 0] fl_of_int [of 1] by simp_all

text \<open>The literal \<^verbatim>\<open>0.7\<close>.\<close>

lemma fl_07: "fl (7 / 10) = 3152519739159347 / 4503599627370496"
  by code_simp

lemma mathRound_of_int: "mathRound (Fin (of_int n)) = Fin (of_int n)"
proof -
  have "\<lfloor>(of_int n :: rat) + 1 / 2\<rfloor> = n"
    by (rule floor_unique) simp_all
  then show ?thesis by simp
qed

lemma mathRound_numeral: "mathRound (Fin (numeral w)) = Fin (numeral w)"
  using mathRound_of_int [of "numeral w"] by simp

subsection \<open>Rounding goes to a nearest double\<close>

text \<open>
  \<open>ilog2\<close> is the binary exponent, so \<open>fl x\<close> has a significand of 53 bits at that
  exponent, lies within half a unit in the last place of \<open>x\<close>, keeps the sign and is
  monotone.
\<close>

lemma pow2_powi: "pow2 e = 2 powi e"
  by (simp add: pow2_def power_int_def field_simps power_inverse [symmetric] inverse_eq_divide)

lemma pow2_pos: "0 < pow2 e"
  by (simp add: pow2_powi)

lemma pow2_add: "pow2 (a + b) = pow2 a * pow2 b"
  by (simp add: pow2_powi power_int_add)

lemma pow2_diff: "pow2 (a - b) = pow2 a / pow2 b"
  by (simp add: pow2_powi power_int_diff)


lemma pow2_nat: "0 \<le> e \<Longrightarrow> pow2 e = 2 ^ nat e"
  by (simp add: pow2_def)

lemma bitlen_pow2_bounds:
  assumes "0 < (p::int)"
  shows "pow2 (bitlen p - 1) \<le> of_int p" and "of_int p < pow2 (bitlen p)"
proof -
  have b: "1 \<le> bitlen p"
    using assms by (simp add: bitlen_alt_def)
  from bitlen_bounds [OF assms] have lo: "(2::int) ^ nat (bitlen p - 1) \<le> p"
    and hi: "p < 2 ^ nat (bitlen p)"
    by simp_all
  from lo have "(of_int ((2::int) ^ nat (bitlen p - 1)) :: rat) \<le> of_int p"
    by (simp only: of_int_le_iff)
  then show "pow2 (bitlen p - 1) \<le> of_int p"
    using b by (simp add: pow2_nat)
  from hi have "(of_int p :: rat) < of_int ((2::int) ^ nat (bitlen p))"
    by (simp only: of_int_less_iff)
  then show "of_int p < pow2 (bitlen p)"
    using b by (simp add: pow2_nat)
qed

lemma ilog2_bounds:
  assumes "0 < x"
  shows "pow2 (ilog2 x) \<le> x \<and> x < pow2 (ilog2 x + 1)"
proof -
  obtain p q where pq: "quotient_of x = (p, q)"
    by (cases "quotient_of x")
  then have q: "0 < q" and x: "x = of_int p / of_int q"
    by (simp_all add: quotient_of_denom_pos quotient_of_div)
  with assms have p: "0 < p"
    by (simp add: zero_less_divide_iff)
  define e where "e = bitlen p - bitlen q"
  have qr: "(0::rat) < of_int q"
    using q by simp
  have "x < pow2 (bitlen p) / pow2 (bitlen q - 1)"
  proof -
    have "x < pow2 (bitlen p) / of_int q"
      unfolding x using bitlen_pow2_bounds(2) [OF p] qr by (simp add: divide_strict_right_mono)
    also have "\<dots> \<le> pow2 (bitlen p) / pow2 (bitlen q - 1)"
      using bitlen_pow2_bounds(1) [OF q] pow2_pos [of "bitlen q - 1"] pow2_pos [of "bitlen p"]
      by (simp add: frac_le)
    finally show ?thesis .
  qed
  then have upper: "x < pow2 (e + 1)"
    by (simp add: e_def pow2_diff [symmetric] algebra_simps)
  have "pow2 (bitlen p - 1) / pow2 (bitlen q) < x"
  proof -
    have "pow2 (bitlen p - 1) / pow2 (bitlen q) < pow2 (bitlen p - 1) / of_int q"
      using bitlen_pow2_bounds(2) [OF q] qr pow2_pos [of "bitlen p - 1"]
      by (simp add: divide_strict_left_mono)
    also have "\<dots> \<le> x"
      unfolding x using bitlen_pow2_bounds(1) [OF p] qr by (simp add: divide_right_mono)
    finally show ?thesis .
  qed
  then have lower: "pow2 (e - 1) < x"
    by (simp add: e_def pow2_diff [symmetric] algebra_simps)
  have il: "ilog2 x = (if pow2 e \<le> x then e else e - 1)"
    by (simp add: ilog2_def pq e_def Let_def)
  show ?thesis
  proof (cases "pow2 e \<le> x")
    case True
    with upper il show ?thesis by simp
  next
    case False
    with lower il show ?thesis by simp
  qed
qed


lemma roundHalfEven_mono: "x \<le> y \<Longrightarrow> roundHalfEven x \<le> roundHalfEven y"
proof -
  assume xy: "x \<le> y"
  then have f: "\<lfloor>x\<rfloor> \<le> \<lfloor>y\<rfloor>"
    by (rule floor_mono)
  have fx: "of_int \<lfloor>x\<rfloor> \<le> x" "x < of_int \<lfloor>x\<rfloor> + 1" and fy: "of_int \<lfloor>y\<rfloor> \<le> y" "y < of_int \<lfloor>y\<rfloor> + 1"
    by linarith+
  show ?thesis
  proof (cases "\<lfloor>x\<rfloor> = \<lfloor>y\<rfloor>")
    case True
    with xy show ?thesis
      by (auto simp: roundHalfEven_def Let_def)
  next
    case False
    with f have "\<lfloor>x\<rfloor> + 1 \<le> \<lfloor>y\<rfloor>"
      by simp
    moreover have "roundHalfEven x \<le> \<lfloor>x\<rfloor> + 1"
      by (auto simp: roundHalfEven_def Let_def)
    moreover have "\<lfloor>y\<rfloor> \<le> roundHalfEven y"
      by (auto simp: roundHalfEven_def Let_def)
    ultimately show ?thesis
      by linarith
  qed
qed

lemma pow2_strict_mono: "a < b \<Longrightarrow> pow2 a < pow2 b"
  by (simp add: pow2_powi power_int_strict_increasing)




lemma fl_pos_eq:
  assumes "0 < x"
  shows "fl x = of_int (roundHalfEven (x / pow2 (ilog2 x - 52))) * pow2 (ilog2 x - 52)"
  using assms by (simp add: fl_def Let_def)

lemma scaled_bounds:
  assumes "0 < x"
  shows "2 ^ 52 \<le> x / pow2 (ilog2 x - 52)" and "x / pow2 (ilog2 x - 52) < 2 ^ 53"
proof -
  have u: "pow2 (ilog2 x - 52) = pow2 (ilog2 x) / 2 ^ 52"
    by (simp add: pow2_diff pow2_nat)
  have p: "0 < pow2 (ilog2 x)"
    by (rule pow2_pos)
  from ilog2_bounds [OF assms] have lo: "pow2 (ilog2 x) \<le> x" and hi: "x < pow2 (ilog2 x) * 2"
    by (simp_all add: pow2_add pow2_nat)
  from lo p show "2 ^ 52 \<le> x / pow2 (ilog2 x - 52)"
    by (simp add: u field_simps)
  from hi p show "x / pow2 (ilog2 x - 52) < 2 ^ 53"
    by (simp add: u field_simps)
qed

lemma significand_bounds:
  assumes "0 < x"
  shows "2 ^ 52 \<le> roundHalfEven (x / pow2 (ilog2 x - 52))"
    and "roundHalfEven (x / pow2 (ilog2 x - 52)) \<le> 2 ^ 53"
proof -
  have "roundHalfEven (of_int (2 ^ 52)) \<le> roundHalfEven (x / pow2 (ilog2 x - 52))"
    using scaled_bounds(1) [OF assms] by (intro roundHalfEven_mono) simp
  then show "2 ^ 52 \<le> roundHalfEven (x / pow2 (ilog2 x - 52))"
    by (simp only: roundHalfEven_of_int)
  have "roundHalfEven (x / pow2 (ilog2 x - 52)) \<le> roundHalfEven (of_int (2 ^ 53))"
    using scaled_bounds(2) [OF assms] by (intro roundHalfEven_mono) simp
  then show "roundHalfEven (x / pow2 (ilog2 x - 52)) \<le> 2 ^ 53"
    by (simp only: roundHalfEven_of_int)
qed


lemma fl_lower:
  assumes "0 < x"
  shows "pow2 (ilog2 x) \<le> fl x"
proof -
  have "(2::rat) ^ 52 \<le> of_int (roundHalfEven (x / pow2 (ilog2 x - 52)))"
    using significand_bounds(1) [OF assms] by (metis of_int_le_iff of_int_numeral of_int_power)
  then have "2 ^ 52 * pow2 (ilog2 x - 52) \<le> fl x"
    unfolding fl_pos_eq [OF assms] using pow2_pos [of "ilog2 x - 52"]
    by (intro mult_right_mono) simp_all
  then show ?thesis
    by (simp add: pow2_diff pow2_nat)
qed


lemma fl_pos: "0 < x \<Longrightarrow> 0 < fl x"
  using fl_lower [of x] pow2_pos [of "ilog2 x"] by linarith

text \<open>The sign of a difference survives the rounding: the comparator of the sort is consistent.\<close>

lemma fl_sgn: "sgn (fl x) = sgn x"
proof -
  consider "x = 0" | "0 < x" | "x < 0" by linarith
  then show ?thesis
  proof cases
    case 1
    then show ?thesis by (simp add: fl_def)
  next
    case 2
    with fl_pos [of x] show ?thesis by simp
  next
    case 3
    then have "0 < fl (- x)"
      by (intro fl_pos) simp
    with 3 show ?thesis
      by (simp add: fl_minus)
  qed
qed



subsection \<open>The two thresholds\<close>





subsection \<open>The callback of detectSuspiciousBehavior\<close>

lemma detect_nth:
  assumes "i < length (objectEntries obj)" and "objectEntries obj ! i = (u, rs)"
  shows "detectSuspiciousBehavior E obj ! i = detectEntry E (u, rs)"
  using assms by (simp add: detectSuspiciousBehavior_def)

lemma detectEntry_long:
  assumes "4 \<le> length rs"
  shows "detectEntry E (u, rs) =
    (let intervals = intervalsOf (sortRequests rs);
         avg = average intervals;
         suspicious =
           (numLt (Fin (fl (7 / 10)))
              (numDiv (ofNat (length (similar avg intervals))) (ofNat (length intervals)))
            \<and> numLt avg (Fin 15000))
     in \<lparr>userId = u,
         requestCount = length rs,
         isSuspicious = suspicious,
         reason =
           (if suspicious
            then js ''Repeated API hits every ''
                 @ numberToString E (mathRound (numDiv avg (Fin 1000))) @ js ''s''
            else js ''Normal activity''),
         avgInterval = Some (mathRound (numDiv avg (Fin 1000)))\<rparr>)"
  using assms by (simp add: analyzeSorted_def length_intervalsOf length_sortRequests Let_def)

lemma detectEntry_short:
  assumes "length rs < 4"
  shows "avgInterval (detectEntry E (u, rs)) = None"
  using assms by (auto simp: analyzeSorted_def length_intervalsOf length_sortRequests Let_def)

text \<open>A user with fewer than 2 requests: the first branch of the callback.\<close>

lemma detectEntry_single:
  assumes "length rs < 2"
  shows "detectEntry E (u, rs) =
    \<lparr>userId = u, requestCount = length rs, isSuspicious = False,
     reason = js ''Normal activity'', avgInterval = None\<rparr>"
  using assms by simp

text \<open>
  A user with more than 2 intervals, whatever the timestamps are: the verdict and the
  reason in the program's own operations on Numbers.
\<close>

lemma regularity_numbers:
  assumes "i < length (objectEntries obj)"
    and "objectEntries obj ! i = (u, rs)"
    and "2 < length (intervalsOf (sortRequests rs))"
  shows
    "(let intervals = intervalsOf (sortRequests rs);
          mean = numDiv (foldl numAdd (Fin 0) intervals) (ofNat (length intervals));
          close = filter (\<lambda>d. numLt (mathAbs (numSub d mean)) (Fin 2000)) intervals;
          ratio = numDiv (ofNat (length close)) (ofNat (length intervals));
          r = detectSuspiciousBehavior E obj ! i
      in (isSuspicious r \<longleftrightarrow> numLt (Fin (fl (7 / 10))) ratio \<and> numLt mean (Fin 15000))
         \<and> reason r =
             (if isSuspicious r
              then js ''Repeated API hits every ''
                   @ numberToString E (mathRound (numDiv mean (Fin 1000))) @ js ''s''
              else js ''Normal activity''))"
proof -
  from assms(3) have "4 \<le> length rs"
    by (simp add: length_intervalsOf length_sortRequests)
  then show ?thesis
    by (simp add: detect_nth [OF assms(1,2)] detectEntry_long Let_def average_def similar_def
          del: detectEntry.simps)
qed

subsection \<open>The requests at 0 s, 5 s, 10 s and 15 s\<close>

lemma sort_four: "sortRequests (snd (fourRequests ! 0)) = snd (fourRequests ! 0)"
  by (simp add: fourRequests_def sortRequests_def)

lemma intervals_four:
  "intervalsOf (snd (fourRequests ! 0)) = [Fin 5000, Fin 5000, Fin 5000]"
  by (simp add: fourRequests_def intervalsOf_def fl_numeral fl_zero
        upt_rec [of 0] upt_rec [of 1] upt_rec [of 2] upt_rec [of 3])

lemma average_four: "average [Fin 5000, Fin 5000, Fin 5000] = Fin 5000"
  by (simp add: average_def ofNat_def fl_numeral)

subsection \<open>Matching\<close>

lemma retry_None_iff:
  "retry m s lo d = None \<longleftrightarrow> (\<forall>k. lo \<le> k \<and> k \<le> lo + d \<longrightarrow> m (drop k s) = None)"
proof (induction d)
  case 0
  then show ?case by (auto split: option.splits)
next
  case (Suc d)
  have "(\<forall>k. lo \<le> k \<and> k \<le> lo + Suc d \<longrightarrow> m (drop k s) = None) \<longleftrightarrow>
        m (drop (lo + Suc d) s) = None \<and> (\<forall>k. lo \<le> k \<and> k \<le> lo + d \<longrightarrow> m (drop k s) = None)"
    by (auto simp: le_Suc_eq)
  with Suc show ?case
    by (auto split: option.splits)
qed

lemma matchItems_chr:
  "matchItems (chr c # its) s =
     (case s of
        [] \<Rightarrow> None
      | x # t \<Rightarrow> if x = c then map_option ((#) [x]) (matchItems its t) else None)"
  by (cases s) (auto simp: chr_def split: option.splits)

lemma matchItems_star:
  "matchItems (Rep p 0 None # its) s = None \<longleftrightarrow>
     (\<forall>k \<le> length (takeWhile p s). matchItems its (drop k s) = None)"
  by (simp add: retry_None_iff)

lemma takeWhile_prefix_length:
  "list_all p v \<Longrightarrow> length v \<le> length (takeWhile p (v @ w))"
  by (induction v) auto

lemma take_takeWhile_all:
  "k \<le> length (takeWhile p s) \<Longrightarrow> list_all p (take k s)"
proof (induction s arbitrary: k)
  case Nil
  then show ?case by simp
next
  case (Cons x s)
  then show ?case by (cases k) (auto split: if_splits)
qed

lemma separator_first:
  "matchItems blockSeparator s =
     (case s of
        [] \<Rightarrow> None
      | x # t \<Rightarrow>
          if x = newline
          then map_option ((#) [x]) (matchItems [Rep isSpace 0 None, chr newline] t)
          else None)"
  unfolding blockSeparator_def by (rule matchItems_chr)

lemma matchItems_last_chr:
  "matchItems [chr c] s \<noteq> None \<longleftrightarrow> (\<exists>w. s = c # w)"
proof (cases s)
  case Nil
  then show ?thesis
    by (simp add: matchItems_chr del: matchItems.simps)
next
  case (Cons x t)
  then show ?thesis
    by (simp add: matchItems_chr del: matchItems.simps(2))
qed

lemma separator_match:
  "matchItems blockSeparator s \<noteq> None \<longleftrightarrow>
     (\<exists>v w. s = newline # v @ newline # w \<and> list_all isSpace v)"
proof
  assume m: "matchItems blockSeparator s \<noteq> None"
  show "\<exists>v w. s = newline # v @ newline # w \<and> list_all isSpace v"
  proof (cases s)
    case Nil
    with m show ?thesis
      by (simp add: separator_first)
  next
    case (Cons x t)
    with m have x: "x = newline"
      and rest: "matchItems [Rep isSpace 0 None, chr newline] t \<noteq> None"
      by (simp_all add: separator_first split: if_splits)
    from rest obtain k where k: "k \<le> length (takeWhile isSpace t)"
      and "matchItems [chr newline] (drop k t) \<noteq> None"
      unfolding matchItems_star by blast
    then obtain w where d: "drop k t = newline # w"
      unfolding matchItems_last_chr by blast
    have "s = newline # (take k t @ drop k t)"
      using Cons x by simp
    then have "s = newline # take k t @ newline # w"
      unfolding d .
    moreover have "list_all isSpace (take k t)"
      using k by (rule take_takeWhile_all)
    ultimately have "s = newline # take k t @ newline # w \<and> list_all isSpace (take k t)"
      by (rule conjI)
    then show ?thesis
      by (intro exI)
  qed
next
  assume "\<exists>v w. s = newline # v @ newline # w \<and> list_all isSpace v"
  then obtain v w where s: "s = newline # v @ newline # w" and v: "list_all isSpace v"
    by blast
  have "length v \<le> length (takeWhile isSpace (v @ newline # w))"
    using v by (rule takeWhile_prefix_length)
  moreover have "matchItems [chr newline] (drop (length v) (v @ newline # w)) \<noteq> None"
    unfolding matchItems_last_chr by simp
  ultimately have "\<not> (\<forall>k \<le> length (takeWhile isSpace (v @ newline # w)).
      matchItems [chr newline] (drop k (v @ newline # w)) = None)"
    by (intro notI) (drule spec [of _ "length v"], simp only: simp_thms)
  then have "matchItems [Rep isSpace 0 None, chr newline] (v @ newline # w) \<noteq> None"
    unfolding matchItems_star .
  then show "matchItems blockSeparator s \<noteq> None"
    by (simp add: separator_first s del: matchItems.simps)
qed

subsection \<open>Splitting\<close>

lemma splitLoop_no_match:
  assumes "\<forall>k. matchItems its (drop k s) = None"
  shows "splitLoop its acc s = [acc @ s]"
  using assms
proof (induction s arbitrary: acc)
  case Nil
  then show ?case by (simp add: splitLoop.simps)
next
  case (Cons x s)
  from Cons.prems have "matchItems its (drop 0 (x # s)) = None"
    by blast
  then have here: "matchItems its (x # s) = None"
    by simp
  have "\<forall>k. matchItems its (drop k s) = None"
  proof
    fix k
    from Cons.prems have "matchItems its (drop (Suc k) (x # s)) = None"
      by blast
    then show "matchItems its (drop k s) = None"
      by simp
  qed
  then have "splitLoop its (acc @ [x]) s = [(acc @ [x]) @ s]"
    by (rule Cons.IH)
  with here show ?case
    by (simp add: splitLoop.simps [of its acc "x # s"])
qed

lemma splitLoop_chars:
  "p \<in> set (splitLoop its acc s) \<Longrightarrow> set p \<subseteq> set acc \<union> set s"
proof (induction its acc s rule: splitLoop.induct)
  case (1 its acc s)
  show ?case
  proof (cases "s = []")
    case True
    with "1.prems" show ?thesis by (simp add: splitLoop.simps)
  next
    case False
    then obtain x t where s: "s = x # t"
      by (cases s) auto
    show ?thesis
    proof (cases "matchItems its s")
      case None
      have "splitLoop its acc s = splitLoop its (acc @ [hd s]) (tl s)"
        using False None by (subst splitLoop.simps) simp
      with "1.prems" have "p \<in> set (splitLoop its (acc @ [hd s]) (tl s))"
        by simp
      from "1.IH"(1) [OF False None this] show ?thesis
        using s by auto
    next
      case (Some parts)
      show ?thesis
      proof (cases "concat parts = [] \<and> acc = []")
        case True
        have "splitLoop its acc s = splitLoop its (acc @ [hd s]) (tl s)"
          using False Some True by (subst splitLoop.simps) (simp del: concat_eq_Nil_conv)
        with "1.prems" have "p \<in> set (splitLoop its (acc @ [hd s]) (tl s))"
          by simp
        from "1.IH"(2) [OF False Some True this] show ?thesis
          using s by auto
      next
        case no: False
        have "splitLoop its acc s =
            (if concat parts = [] \<and> acc = [] then splitLoop its (acc @ [hd s]) (tl s)
             else acc # splitLoop its [] (drop (length (concat parts)) s))"
          using False Some by (subst splitLoop.simps) (simp del: concat_eq_Nil_conv)
        with no have "splitLoop its acc s = acc # splitLoop its [] (drop (length (concat parts)) s)"
          by (simp only: if_False)
        with "1.prems" have
          "p = acc \<or> p \<in> set (splitLoop its [] (drop (length (concat parts)) s))"
          by simp
        then show ?thesis
        proof
          assume "p = acc"
          then show ?thesis by auto
        next
          assume "p \<in> set (splitLoop its [] (drop (length (concat parts)) s))"
          from "1.IH"(3) [OF False Some no this] show ?thesis
            using set_drop_subset [of "length (concat parts)" s] by auto
        qed
      qed
    qed
  qed
qed

lemma regexSplit_chars: "p \<in> set (regexSplit its s) \<Longrightarrow> set p \<subseteq> set s"
  using splitLoop_chars [of p its "[]" s]
  by (auto simp: regexSplit_def split: if_splits option.splits)

lemma trim_all_space:
  assumes "list_all isSpace s"
  shows "trim s = []"
proof -
  from assms have "dropWhile isSpace s = []"
    by (simp add: list_all_iff)
  then show ?thesis
    unfolding trim_def by (simp only: rev.simps dropWhile.simps)
qed

lemma trim_not_Nil:
  assumes "\<not> list_all isSpace s"
  shows "trim s \<noteq> []"
proof -
  from assms obtain x where "x \<in> set s" and "\<not> isSpace x"
    by (auto simp: list_all_iff)
  then have "dropWhile isSpace s \<noteq> []"
    by auto
  then have "\<not> isSpace (hd (dropWhile isSpace s))"
    by (rule hd_dropWhile)
  moreover have "hd (dropWhile isSpace s) \<in> set (rev (dropWhile isSpace s))"
    using \<open>dropWhile isSpace s \<noteq> []\<close> by simp
  ultimately have "dropWhile isSpace (rev (dropWhile isSpace s)) \<noteq> []"
    by (metis dropWhile_eq_Nil_conv)
  then show ?thesis
    by (simp add: trim_def)
qed

lemma splitIntoBlocks_space:
  assumes "list_all isSpace content"
  shows "splitIntoBlocks content = []"
proof -
  have "trim p = []" if "p \<in> set (regexSplit blockSeparator content)" for p
  proof -
    from that have "set p \<subseteq> set content"
      by (rule regexSplit_chars)
    with assms have "list_all isSpace p"
      by (auto simp: list_all_iff)
    then show ?thesis
      by (rule trim_all_space)
  qed
  then show ?thesis
    by (simp add: splitIntoBlocks_def filter_empty_conv)
qed

lemma regexSplit_no_separator:
  assumes "\<nexists>u v w. content = u @ newline # v @ newline # w \<and> list_all isSpace v"
  shows "regexSplit blockSeparator content = [content]"
proof -
  have none: "matchItems blockSeparator (drop k content) = None" for k
  proof (rule ccontr)
    assume "matchItems blockSeparator (drop k content) \<noteq> None"
    then obtain v w where "drop k content = newline # v @ newline # w" and "list_all isSpace v"
      using separator_match by blast
    then have "content = take k content @ newline # v @ newline # w \<and> list_all isSpace v"
      by (metis append_take_drop_id)
    with assms show False
      by blast
  qed
  show ?thesis
  proof (cases "content = []")
    case True
    with none [of 0] show ?thesis
      by (simp add: regexSplit_def)
  next
    case False
    with splitLoop_no_match [of blockSeparator content "[]"] none show ?thesis
      by (simp add: regexSplit_def)
  qed
qed

lemma parse_empty:
  "parseLogContent E [] =
     Inr [(''ipAnalysis'', IpList []),
          (''userAnalysis'', UserList []),
          (''isBreach'', Flag False),
          (''stats'', Object
             [(''totalBlocks'', Count 0), (''totalIPs'', Count 0), (''internalIPs'', Count 0),
              (''externalIPs'', Count 0), (''suspiciousUsers'', Count 0)])]"
proof -
  have "splitIntoBlocks [] = []"
    by (rule splitIntoBlocks_space) simp
  then show ?thesis
    by (simp add: parseLogContent_def analyzeIPs_def analyzeUserBehavior_def
          detectSuspiciousBehavior_def objectEntries_def determineBreach_def)
qed

subsection \<open>The array of analyzeIPs\<close>

lemma splitChar_not_Nil: "splitChar c s \<noteq> []"
  by (induction s) (auto split: list.splits)

lemma forEachE_append:
  "forEachE f (xs @ ys) st =
     (case forEachE f xs st of Inl e \<Rightarrow> Inl e | Inr st' \<Rightarrow> forEachE f ys st')"
  by (induction xs arbitrary: st) (auto split: sum.splits)

text \<open>What a block does to the records.\<close>

lemma analyzeIPsBlock_cases:
  obtains (skip) "analyzeIPsBlock ips block = Inr ips"
  | (push) a rest where
      "execAt ipPattern (hd (splitChar newline block)) = Some a"
      "a \<notin> ip ` set ips"
      "analyzeIPsBlock ips block =
         Inr (ips @ [\<lparr>ip = a, isInternal = startsWith a (js ''10.''), requests = rest\<rparr>])"
proof (cases "splitChar newline block")
  case Nil
  then show ?thesis using splitChar_not_Nil by blast
next
  case (Cons firstLine rest)
  show ?thesis
  proof (cases "execAt ipPattern firstLine")
    case None
    with Cons have "analyzeIPsBlock ips block = Inr ips"
      by (simp add: analyzeIPsBlock_def)
    then show ?thesis by (rule skip)
  next
    case (Some a)
    show ?thesis
    proof (cases "find (\<lambda>item. ip item = a) ips = None")
      case True
      then have fresh: "a \<notin> ip ` set ips"
        by (auto simp: find_None_iff)
      have leading: "execAt ipPattern (hd (splitChar newline block)) = Some a"
        using Cons Some by simp
      have "analyzeIPsBlock ips block =
         Inr (ips @ [\<lparr>ip = a, isInternal = startsWith a (js ''10.''),
                      requests = filter (\<lambda>line. length (trim line) > 0) rest\<rparr>])"
        using Cons Some True by (simp add: analyzeIPsBlock_def)
      with leading fresh show ?thesis by (rule push)
    next
      case False
      with Cons Some have "analyzeIPsBlock ips block = Inr ips"
        by (simp add: analyzeIPsBlock_def)
      then show ?thesis by (rule skip)
    qed
  qed
qed

lemma analyzeIPsBlock_known:
  assumes "execAt ipPattern (hd (splitChar newline block)) = Some a" and "a \<in> ip ` set ips"
  shows "analyzeIPsBlock ips block = Inr ips"
  using assms by (cases rule: analyzeIPsBlock_cases [of ips block]) auto

lemma forEachE_analyzeIPs:
  assumes "wellFormed ips0"
  shows "\<exists>new. forEachE analyzeIPsBlock blocks ips0 = Inr (ips0 @ new) \<and> wellFormed (ips0 @ new)"
  using assms
proof (induction blocks arbitrary: ips0)
  case Nil
  then show ?case by simp
next
  case (Cons block blocks)
  show ?case
  proof (cases rule: analyzeIPsBlock_cases [of ips0 block])
    case skip
    with Cons show ?thesis by simp
  next
    case (push a rest)
    let ?r = "\<lparr>ip = a, isInternal = startsWith a (js ''10.''), requests = rest\<rparr>"
    have "wellFormed (ips0 @ [?r])"
      using Cons.prems push(2) by (auto simp: wellFormed_def)
    from Cons.IH [OF this] obtain new where
      "forEachE analyzeIPsBlock blocks (ips0 @ [?r]) = Inr ((ips0 @ [?r]) @ new)"
      "wellFormed ((ips0 @ [?r]) @ new)"
      by blast
    with push(3) show ?thesis
      by (intro exI [of _ "?r # new"]) simp
  qed
qed

lemma analyzeIPs_total: "\<exists>ips. analyzeIPs blocks = Inr ips \<and> wellFormed ips"
  using forEachE_analyzeIPs [of "[]" blocks] by (simp add: analyzeIPs_def wellFormed_def)

lemma analyzeIPs_append:
  assumes "analyzeIPs blocks = Inr ips"
  shows "\<exists>new. analyzeIPs (blocks @ later) = Inr (ips @ new)"
proof -
  from analyzeIPs_total [of blocks] assms have "wellFormed ips"
    by simp
  from forEachE_analyzeIPs [OF this, of later] assms show ?thesis
    by (auto simp: analyzeIPs_def forEachE_append)
qed

lemma startsWith_take:
  assumes "startsWith a p" and "n \<le> length p"
  shows "take n a = take n p"
proof -
  from assms(1) have "take n (take (length p) a) = take n p"
    by (simp add: startsWith_def)
  with assms(2) show ?thesis
    by (simp add: min_def)
qed

lemma other_prefix:
  assumes "startsWith a p" and "length q \<le> length p" and "take (length q) p \<noteq> q"
  shows "\<not> startsWith a q"
proof
  assume "startsWith a q"
  then have "take (length q) a = q"
    by (simp add: startsWith_def)
  moreover have "take (length q) a = take (length q) p"
    using assms(1,2) by (rule startsWith_take)
  ultimately show False
    using assms(3) by simp
qed

lemma not_ten_172: "startsWith a (js ''172.16.'') \<Longrightarrow> \<not> startsWith a (js ''10.'')"
  by (rule other_prefix [where p = "js ''172.16.''"]) (simp_all add: js_def)

lemma not_ten_192: "startsWith a (js ''192.168.'') \<Longrightarrow> \<not> startsWith a (js ''10.'')"
  by (rule other_prefix [where p = "js ''192.168.''"]) (simp_all add: js_def)

subsection \<open>The object parseLogContent returns\<close>

lemma parseLogContent_Inr:
  assumes "parseLogContent E content = Inr res"
  shows "\<exists>ips users.
    analyzeIPs (splitIntoBlocks content) = Inr ips
    \<and> analyzeUserBehavior E (splitIntoBlocks content) = Inr users
    \<and> res =
        [(''ipAnalysis'', IpList ips),
         (''userAnalysis'', UserList users),
         (''isBreach'', Flag (determineBreach ips users)),
         (''stats'', Object
            [(''totalBlocks'', Count (length (splitIntoBlocks content))),
             (''totalIPs'', Count (length ips)),
             (''internalIPs'', Count (length (filter (\<lambda>i. isInternal i) ips))),
             (''externalIPs'', Count (length (filter (\<lambda>i. \<not> isInternal i) ips))),
             (''suspiciousUsers'', Count (length (filter (\<lambda>user. isSuspicious user) users)))])]"
  using assms by (auto simp: parseLogContent_def Let_def split: sum.splits)

subsection \<open>The sample logs\<close>

lemmas regex_defs =
  blockSeparator_def ipPattern_def userIdPattern_def patterns_def hms_def ymdhms_def dmyhms_def
  digits_def lit_def chr_def isDigit_def isSpace_def newline_def regexMatch.simps splitLoop.simps

lemma split_mixed: "splitIntoBlocks mixedLog = mixedBlocks"
  by (simp add: mixedLog_def mixedBlocks_def splitIntoBlocks_def regexSplit_def trim_def js_def regex_defs)

lemma split_internal: "splitIntoBlocks internalLog = [internalLog]"
  by (simp add: internalLog_def splitIntoBlocks_def regexSplit_def trim_def js_def regex_defs)

lemma ips_mixed: "analyzeIPs mixedBlocks = Inr mixedIPs"
  by (simp add: mixedBlocks_def mixedIPs_def analyzeIPs_def analyzeIPsBlock_def startsWith_def trim_def js_def regex_defs)

lemma ips_internal: "analyzeIPs [internalLog] = Inr [\<lparr>ip = js ''10.0.0.1'', isInternal = True, requests = []\<rparr>]"
  by (simp add: internalLog_def analyzeIPs_def analyzeIPsBlock_def startsWith_def trim_def js_def regex_defs)

lemma ips_first: "analyzeIPs [firstBlock] = Inr [firstRecord]"
  by (simp add: firstBlock_def firstRecord_def analyzeIPs_def analyzeIPsBlock_def startsWith_def
        trim_def js_def regex_defs)

lemma leading_second: "execAt ipPattern (hd (splitChar newline secondBlock)) = Some (js ''10.0.0.1'')"
  by (simp add: secondBlock_def js_def regex_defs)


lemma users_mixed: "analyzeUserBehavior E mixedBlocks = Inr []"
  by (simp add: mixedBlocks_def analyzeUserBehavior_def analyzeUserBlock_def analyzeUserLine_def
        extractTimestamp_def detectSuspiciousBehavior_def objectEntries_def js_def regex_defs)

lemma users_internal: "analyzeUserBehavior E [internalLog] = Inr []"
  by (simp add: internalLog_def analyzeUserBehavior_def analyzeUserBlock_def analyzeUserLine_def
        extractTimestamp_def detectSuspiciousBehavior_def objectEntries_def js_def regex_defs)

lemma split_reserved: "splitIntoBlocks reservedLog = [reservedLog]"
  by (simp add: reservedLog_def splitIntoBlocks_def regexSplit_def trim_def js_def regex_defs)

lemma ips_reserved: "analyzeIPs [reservedLog] = Inr []"
  by (simp add: reservedLog_def analyzeIPs_def analyzeIPsBlock_def startsWith_def trim_def js_def regex_defs)

lemma user_reserved: "regexMatch userIdPattern reservedLog = Some (js ''constructor'')"
  by (simp add: reservedLog_def js_def regex_defs)

lemma time_reserved: "extractTimestamp E reservedLog = Some (newDate E (js ''10:30:45''))"
  by (simp add: reservedLog_def extractTimestamp_def js_def regex_defs)

lemma users_reserved: "analyzeUserBehavior E [reservedLog] = Inl TypeError"
proof -
  have "splitChar newline reservedLog = [reservedLog]"
    by (simp add: reservedLog_def js_def newline_def)
  moreover have "getProperty [] (js ''constructor'') = Inherited"
    by (simp add: getProperty_def objectPrototypeKeys_def js_def)
  ultimately show ?thesis
    by (simp add: analyzeUserBehavior_def analyzeUserBlock_def analyzeUserLine_def user_reserved
          time_reserved)
qed

lemma parse_mixed: "parseLogContent E mixedLog = Inr mixedResult"
  by (simp add: parseLogContent_def split_mixed ips_mixed users_mixed determineBreach_def mixedResult_def)
     (simp add: mixedIPs_def mixedBlocks_def)

lemma parse_internal: "parseLogContent E internalLog = Inr internalResult"
  by (simp add: parseLogContent_def split_internal ips_internal users_internal determineBreach_def
        internalResult_def)

lemma one_newline:
  assumes "s = u @ newline # v @ newline # w"
  shows "2 \<le> count_list s newline"
  unfolding assms by simp

lemma twoLines_no_separator:
  "\<nexists>u v w. twoLines = u @ newline # v @ newline # w \<and> list_all isSpace v"
proof
  assume "\<exists>u v w. twoLines = u @ newline # v @ newline # w \<and> list_all isSpace v"
  then obtain u v w where "twoLines = u @ newline # v @ newline # w"
    by blast
  then have "2 \<le> count_list twoLines newline"
    by (rule one_newline)
  then show False
    by (simp add: twoLines_def js_def newline_def)
qed

subsection \<open>Where a TypeError comes from\<close>

text \<open>
  A line without a user id or without a timestamp leaves \<open>userRequests\<close> as it is. The
  only throw of the analysis is the call of \<open>push\<close> on a property inherited from
  \<open>Object.prototype\<close>: a line with a timestamp whose user id is one of its names.
\<close>

lemma forEachE_Inl:
  "forEachE f xs st = Inl e \<Longrightarrow> \<exists>x \<in> set xs. \<exists>st'. f st' x = Inl e"
  by (induction xs arbitrary: st) (auto split: sum.splits)

lemma analyzeUserLine_absent:
  assumes "regexMatch userIdPattern line = None \<or> extractTimestamp E line = None"
  shows "analyzeUserLine E obj line = Inr obj"
  using assms by (auto simp: analyzeUserLine_def split: option.splits)

lemma getProperty_update: "getProperty (AList.update u a obj) u = Array a"
  by (simp add: getProperty_def update_conv')

lemma analyzeUserLine_Inl:
  assumes "analyzeUserLine E obj line = Inl e"
  shows "\<exists>u t. regexMatch userIdPattern line = Some u \<and> extractTimestamp E line = Some t
    \<and> u \<in> set objectPrototypeKeys \<and> map_of obj u = None"
proof -
  from assms obtain u t where u: "regexMatch userIdPattern line = Some u"
    and t: "extractTimestamp E line = Some t"
    by (auto simp: analyzeUserLine_def split: option.splits)
  have "getProperty obj u = Inherited"
  proof (cases "getProperty obj u")
    case (Array a)
    with assms u t show ?thesis
      by (simp add: analyzeUserLine_def)
  next
    case Inherited
    then show ?thesis .
  next
    case Undefined
    with assms u t show ?thesis
      by (simp add: analyzeUserLine_def getProperty_update)
  qed
  then have "u \<in> set objectPrototypeKeys \<and> map_of obj u = None"
    by (auto simp: getProperty_def split: option.splits if_splits)
  with u t show ?thesis
    by blast
qed

lemma parseLogContent_Inl:
  assumes "parseLogContent E content = Inl e"
  shows "\<exists>block \<in> set (splitIntoBlocks content). \<exists>line \<in> set (splitChar newline block).
    \<exists>u t. regexMatch userIdPattern line = Some u \<and> extractTimestamp E line = Some t
      \<and> u \<in> set objectPrototypeKeys"
proof -
  obtain ips where "analyzeIPs (splitIntoBlocks content) = Inr ips"
    using analyzeIPs_total by blast
  with assms have "forEachE (analyzeUserBlock E) (splitIntoBlocks content) [] = Inl e"
    by (auto simp: parseLogContent_def analyzeUserBehavior_def Let_def split: sum.splits)
  from forEachE_Inl [OF this] obtain block obj where block: "block \<in> set (splitIntoBlocks content)"
    and "analyzeUserBlock E obj block = Inl e"
    by blast
  then have "forEachE (analyzeUserLine E) (splitChar newline block) obj = Inl e"
    by (simp add: analyzeUserBlock_def)
  from forEachE_Inl [OF this] obtain line obj' where line: "line \<in> set (splitChar newline block)"
    and "analyzeUserLine E obj' line = Inl e"
    by blast
  from analyzeUserLine_Inl [OF this(2)] block line show ?thesis
    by blast
qed

subsection \<open>An invalid Date among the timestamps\<close>

text \<open>
  NaN spreads through the intervals, their sum and the mean, and every comparison with it
  is false. So when a timestamp is an invalid Date, the record is the same in whatever
  order the sort leaves the array (\<open>rs'\<close> is any rearrangement of \<open>rs\<close>).
\<close>

lemma numAdd_NaN: "numAdd NaN x = NaN" "numAdd x NaN = NaN"
  by (cases x; simp)+

lemma numSub_NaN: "numSub NaN x = NaN" "numSub x NaN = NaN"
  by (cases x; simp)+

lemma numDiv_NaN: "numDiv NaN x = NaN"
  by simp

lemma numLt_NaN: "\<not> numLt NaN x" "\<not> numLt x NaN"
  by (cases x; simp)+

lemma foldl_numAdd_NaN: "foldl numAdd NaN xs = NaN"
  by (induction xs) (simp_all add: numAdd_NaN)

lemma sum_NaN:
  assumes "NaN \<in> set xs"
  shows "foldl numAdd a xs = NaN"
  using assms
proof (induction xs arbitrary: a)
  case Nil
  then show ?case by simp
next
  case (Cons x xs)
  show ?case
  proof (cases "x = NaN")
    case True
    then show ?thesis
      by (simp add: numAdd_NaN foldl_numAdd_NaN)
  next
    case False
    with Cons.prems have "NaN \<in> set xs"
      by simp
    then show ?thesis
      by (simp add: Cons.IH)
  qed
qed

lemma intervalsOf_NaN:
  assumes "r \<in> set rs" and "timestamp r = NaN" and "2 \<le> length rs"
  shows "NaN \<in> set (intervalsOf rs)"
proof -
  from assms(1) obtain i where i: "i < length rs" and r: "rs ! i = r"
    by (auto simp: in_set_conv_nth)
  show ?thesis
  proof (cases i)
    case 0
    have "numSub (timestamp (rs ! 1)) (timestamp (rs ! (1 - 1))) = NaN"
      using r assms(2) 0 by (simp add: numSub_NaN)
    moreover have "1 \<in> set [1..<length rs]"
      using assms(3) by simp
    ultimately show ?thesis
      unfolding intervalsOf_def by (metis (no_types, lifting) image_eqI set_map)
  next
    case (Suc j)
    have "numSub (timestamp (rs ! i)) (timestamp (rs ! (i - 1))) = NaN"
      using r assms(2) by (simp add: numSub_NaN)
    moreover have "i \<in> set [1..<length rs]"
      using i Suc by simp
    ultimately show ?thesis
      unfolding intervalsOf_def by (metis (no_types, lifting) image_eqI set_map)
  qed
qed

lemma similar_NaN: "similar NaN xs = []"
  by (simp add: similar_def numSub_NaN)

lemma analyzeSorted_invalid_date:
  assumes "r \<in> set rs" and "timestamp r = NaN"
  shows "analyzeSorted E u rs =
    (if 4 \<le> length rs
     then \<lparr>userId = u, requestCount = length rs, isSuspicious = False,
           reason = js ''Normal activity'', avgInterval = Some NaN\<rparr>
     else \<lparr>userId = u, requestCount = length rs, isSuspicious = False,
           reason = js ''Insufficient data'', avgInterval = None\<rparr>)"
proof (cases "4 \<le> length rs")
  case True
  then have "NaN \<in> set (intervalsOf rs)"
    using intervalsOf_NaN [OF assms] by simp
  then have "average (intervalsOf rs) = NaN"
    by (simp add: average_def sum_NaN)
  with True show ?thesis
    by (simp add: analyzeSorted_def length_intervalsOf Let_def numLt_NaN)
next
  case False
  then show ?thesis
    by (auto simp: analyzeSorted_def length_intervalsOf Let_def)
qed

lemma detectEntry_invalid_date:
  assumes "r \<in> set rs" and "timestamp r = NaN" and "2 \<le> length rs" and "mset rs' = mset rs"
  shows "analyzeSorted E u rs' = detectEntry E (u, rs)"
proof -
  from assms(4) have len: "length rs' = length rs"
    by (rule mset_eq_length)
  from assms(1,4) have "r \<in> set rs'"
    by (metis mset_eq_setD)
  from analyzeSorted_invalid_date [OF this assms(2)] have
    "analyzeSorted E u rs' = analyzeSorted E u rs"
    unfolding len analyzeSorted_invalid_date [OF assms(1,2)] .
  moreover have "sortRequests rs = rs"
    using assms(1,2) by (auto simp: sortRequests_def list_all_iff)
  ultimately show ?thesis
    using assms(3) by simp
qed

subsection \<open>Integer time values: the rounding does not change the verdict\<close>


























subsection \<open>The rule on the sample requests\<close>








lemma five_seconds:
  "js ''Repeated API hits every '' @ numberToString E (Fin 5) @ js ''s''
     = js ''Repeated API hits every 5s''"
  by (simp add: js_def decimal.simps)

subsection \<open>The program on the sample requests\<close>

text \<open>
  What \<open>detectSuspiciousBehavior\<close> returns for the requests out of order, for the burst
  and for the invalid Dates, by evaluation.
\<close>

lemma sort_shuffled:
  "sortRequests (snd (shuffledRequests ! 0)) =
     [\<lparr>timestamp = Fin 0, request = js ''a''\<rparr>,
      \<lparr>timestamp = Fin 5000, request = js ''b''\<rparr>,
      \<lparr>timestamp = Fin 10000, request = js ''c''\<rparr>,
      \<lparr>timestamp = Fin 15000, request = js ''d''\<rparr>]"
  by (simp add: shuffledRequests_def sortRequests_def)

lemma intervals_of_shuffled:
  "intervalsOf (sortRequests (snd (shuffledRequests ! 0))) = [Fin 5000, Fin 5000, Fin 5000]"
  by (simp add: sort_shuffled intervalsOf_def fl_numeral fl_zero
        upt_rec [of 0] upt_rec [of 1] upt_rec [of 2] upt_rec [of 3])

lemma similar_regular: "similar (Fin 5000) [Fin 5000, Fin 5000, Fin 5000] = [Fin 5000, Fin 5000, Fin 5000]"
  by (simp add: similar_def fl_zero)

lemma ratio_regular:
  "numLt (Fin (fl (7 / 10)))
     (numDiv (ofNat (length [Fin 5000, Fin 5000, Fin 5000])) (ofNat (length [Fin 5000, Fin 5000, Fin 5000])))
   = True"
  by (simp add: ofNat_def fl_one fl_07)

lemma seconds_regular: "mathRound (numDiv (Fin 5000) (Fin 1000)) = Fin 5"
  by (simp add: fl_numeral mathRound_numeral del: mathRound.simps)

lemma detect_shuffled:
  "detectSuspiciousBehavior plainEngine shuffledRequests =
     [\<lparr>userId = js ''u'', requestCount = 4, isSuspicious = True,
       reason = js ''Repeated API hits every 5s'', avgInterval = Some (Fin 5)\<rparr>]"
proof -
  have len: "4 \<le> length (snd (shuffledRequests ! 0))"
    by (simp add: shuffledRequests_def)
  have "detectEntry plainEngine (js ''u'', snd (shuffledRequests ! 0)) =
     \<lparr>userId = js ''u'', requestCount = 4, isSuspicious = True,
       reason = js ''Repeated API hits every 5s'', avgInterval = Some (Fin 5)\<rparr>"
    unfolding detectEntry_long [OF len] Let_def intervals_of_shuffled average_four similar_regular
      ratio_regular
    using five_seconds [of plainEngine]
    by (simp add: ratio_regular seconds_regular shuffledRequests_def del: numberToString.simps mathRound.simps numDiv.simps)
  then show ?thesis
    by (simp add: detectSuspiciousBehavior_def objectEntries_shuffledRequests del: detectEntry.simps)
       (simp add: shuffledRequests_def del: detectEntry.simps)
qed

lemma intervals_of_burst:
  "intervalsOf (sortRequests (snd (burstRequests ! 0))) = [Fin 0, Fin 0, Fin 0, Fin 10000]"
  by (simp add: burstRequests_def sortRequests_def intervalsOf_def fl_numeral fl_zero
        upt_rec [of 0] upt_rec [of 1] upt_rec [of 2] upt_rec [of 3] upt_rec [of 4])

lemma average_burst: "average [Fin 0, Fin 0, Fin 0, Fin 10000] = Fin 2500"
  by (simp add: average_def ofNat_def fl_numeral fl_zero)

lemma similar_burst: "similar (Fin 2500) [Fin 0, Fin 0, Fin 0, Fin 10000] = []"
  by (simp add: similar_def fl_numeral fl_minus)

lemma ratio_burst:
  "numLt (Fin (fl (7 / 10)))
     (numDiv (ofNat (length ([] :: number list))) (ofNat (length [Fin 0, Fin 0, Fin 0, Fin 10000])))
   = False"
  by (simp add: ofNat_def fl_zero fl_07)

lemma fl_five_halves: "fl (5 / 2) = 5 / 2"
  by code_simp

lemma seconds_burst: "mathRound (numDiv (Fin 2500) (Fin 1000)) = Fin 3"
proof -
  have "\<lfloor>(5 :: rat) / 2 + 1 / 2\<rfloor> = 3"
    by (rule floor_unique) simp_all
  then show ?thesis
    by (simp add: fl_five_halves)
qed

lemma detect_burst:
  "detectSuspiciousBehavior plainEngine burstRequests =
     [\<lparr>userId = js ''u'', requestCount = 5, isSuspicious = False,
       reason = js ''Normal activity'', avgInterval = Some (Fin 3)\<rparr>]"
proof -
  have len: "4 \<le> length (snd (burstRequests ! 0))"
    by (simp add: burstRequests_def)
  have "detectEntry plainEngine (js ''u'', snd (burstRequests ! 0)) =
     \<lparr>userId = js ''u'', requestCount = 5, isSuspicious = False,
       reason = js ''Normal activity'', avgInterval = Some (Fin 3)\<rparr>"
    unfolding detectEntry_long [OF len] Let_def intervals_of_burst average_burst similar_burst
      ratio_burst
    by (simp add: ratio_burst seconds_burst burstRequests_def del: numberToString.simps mathRound.simps numDiv.simps)
  then show ?thesis
    by (simp add: detectSuspiciousBehavior_def objectEntries_burstRequests del: detectEntry.simps)
       (simp add: burstRequests_def del: detectEntry.simps)
qed

lemma detect_undated:
  "detectSuspiciousBehavior plainEngine undatedRequests =
     [\<lparr>userId = js ''u'', requestCount = 4, isSuspicious = False,
       reason = js ''Normal activity'', avgInterval = Some NaN\<rparr>]"
  by (simp add: detectSuspiciousBehavior_def objectEntries_undatedRequests)
     (simp add: undatedRequests_def sortRequests_def analyzeSorted_def intervalsOf_def
        average_def similar_def Let_def
        upt_rec [of 0] upt_rec [of 1] upt_rec [of 2] upt_rec [of 3])

section \<open>The records of detectSuspiciousBehavior\<close>

text \<open>
  C1 (as amended). A user whose array holds exactly 2 requests gets a record with
  \<open>isSuspicious = false\<close> and the reason "Insufficient data", whatever the two
  timestamps are: the array has 2 or more entries, so the branch "Normal activity" for
  fewer than 2 is not taken, and its single interval is not more than 2 intervals.
\<close>

theorem two_requests_insufficient_data:
  assumes "i < length (objectEntries obj)"
    and "objectEntries obj ! i = (u, rs)"
    and "length rs = 2"
  shows "detectSuspiciousBehavior E obj ! i =
    \<lparr>userId = u, requestCount = 2, isSuspicious = False,
     reason = js ''Insufficient data'', avgInterval = None\<rparr>"
proof -
  have "detectSuspiciousBehavior E obj ! i = detectEntry E (u, rs)"
    using assms(1,2) by (simp add: detectSuspiciousBehavior_def)
  also have "\<dots> = analyzeSorted E u (sortRequests rs)"
    using assms(3) by simp
  also have "\<dots> = \<lparr>userId = u, requestCount = 2, isSuspicious = False,
     reason = js ''Insufficient data'', avgInterval = None\<rparr>"
    using assms(3) by (simp add: analyzeSorted_def length_intervalsOf length_sortRequests)
  finally show ?thesis .
qed

theorem two_requests_witness:
  "detectSuspiciousBehavior plainEngine twoRequests ! 0 =
    \<lparr>userId = js ''u'', requestCount = 2, isSuspicious = False,
     reason = js ''Insufficient data'', avgInterval = None\<rparr>"
  by (rule two_requests_insufficient_data [where rs = "snd (twoRequests ! 0)"])
     (simp_all add: objectEntries_twoRequests, simp_all add: twoRequests_def)

text \<open>
  C1 as the specification states it fails: the reason of a user with 2 requests, 5
  seconds apart, is not "Normal activity".
\<close>

theorem two_requests_counterexample:
  "reason (detectSuspiciousBehavior plainEngine twoRequests ! 0) \<noteq> js ''Normal activity''"
  by (simp add: detectSuspiciousBehavior_def objectEntries_twoRequests)
     (simp add: twoRequests_def analyzeSorted_def length_intervalsOf length_sortRequests js_def)

text \<open>
  C2 (as amended). The record of a user has the property \<open>avgInterval\<close> if and only if
  the user has at least 4 requests, that is more than 2 intervals; 3 requests are not
  enough. When it is there, it is \<open>Math.round(mean / 1000)\<close>, where the mean is the sum
  of the intervals of the sorted requests divided by their number.
\<close>

theorem avgInterval_present_iff:
  assumes "i < length (objectEntries obj)" and "objectEntries obj ! i = (u, rs)"
  shows "(avgInterval (detectSuspiciousBehavior E obj ! i) \<noteq> None \<longleftrightarrow> 4 \<le> length rs)
    \<and> (4 \<le> length rs \<longrightarrow>
         avgInterval (detectSuspiciousBehavior E obj ! i) =
           Some (mathRound (numDiv
             (numDiv (foldl numAdd (Fin 0) (intervalsOf (sortRequests rs)))
                (ofNat (length (intervalsOf (sortRequests rs)))))
             (Fin 1000))))"
proof (cases "4 \<le> length rs")
  case True
  then show ?thesis
    by (simp add: detect_nth [OF assms] detectEntry_long Let_def average_def del: detectEntry.simps)
next
  case False
  then have "length rs < 4" by simp
  then show ?thesis
    using False by (simp add: detect_nth [OF assms] detectEntry_short del: detectEntry.simps)
qed

theorem avgInterval_witness:
  "avgInterval (detectSuspiciousBehavior plainEngine fourRequests ! 0) = Some (Fin 5)"
proof -
  have "avgInterval (detectSuspiciousBehavior plainEngine fourRequests ! 0) =
    Some (mathRound (numDiv
             (numDiv (foldl numAdd (Fin 0) (intervalsOf (sortRequests (snd (fourRequests ! 0)))))
                (ofNat (length (intervalsOf (sortRequests (snd (fourRequests ! 0)))))))
             (Fin 1000)))"
    using avgInterval_present_iff [of 0 fourRequests "js ''u''" "snd (fourRequests ! 0)" plainEngine]
    by (simp add: objectEntries_fourRequests) (simp add: fourRequests_def)
  then show ?thesis
    using average_four
    by (simp add: sort_four intervals_four average_def fl_numeral mathRound_numeral
          del: mathRound.simps)
qed

text \<open>
  C2 as the specification states it fails: a user with 3 requests has at least 3
  requests, and the record has no \<open>avgInterval\<close>.
\<close>

theorem avgInterval_counterexample:
  "length (snd (objectEntries threeRequests ! 0)) = 3
   \<and> avgInterval (detectSuspiciousBehavior plainEngine threeRequests ! 0) = None"
  by (simp add: detectSuspiciousBehavior_def objectEntries_threeRequests)
     (simp add: threeRequests_def analyzeSorted_def length_intervalsOf length_sortRequests)



section \<open>The object parseLogContent returns\<close>

text \<open>
  C3 (as amended). When \<open>parseLogContent\<close> returns, the object has the properties
  \<open>ipAnalysis\<close>, \<open>userAnalysis\<close>, \<open>isBreach\<close> and \<open>stats\<close>, in this order and no
  others, and \<open>stats\<close> has the properties \<open>totalBlocks\<close>, \<open>totalIPs\<close>,
  \<open>internalIPs\<close>, \<open>externalIPs\<close> and \<open>suspiciousUsers\<close>.
\<close>

theorem result_property_names:
  assumes "parseLogContent E content = Inr res"
  shows "map fst res = [''ipAnalysis'', ''userAnalysis'', ''isBreach'', ''stats'']
    \<and> (\<exists>st. map_of res ''stats'' = Some (Object st)
          \<and> map fst st =
              [''totalBlocks'', ''totalIPs'', ''internalIPs'', ''externalIPs'', ''suspiciousUsers''])"
proof -
  from parseLogContent_Inr [OF assms] obtain ips users where
    res: "res =
        [(''ipAnalysis'', IpList ips),
         (''userAnalysis'', UserList users),
         (''isBreach'', Flag (determineBreach ips users)),
         (''stats'', Object
            [(''totalBlocks'', Count (length (splitIntoBlocks content))),
             (''totalIPs'', Count (length ips)),
             (''internalIPs'', Count (length (filter (\<lambda>i. isInternal i) ips))),
             (''externalIPs'', Count (length (filter (\<lambda>i. \<not> isInternal i) ips))),
             (''suspiciousUsers'', Count (length (filter (\<lambda>user. isSuspicious user) users)))])]"
    by blast
  show ?thesis
    by (simp add: res)
qed

theorem result_property_names_witness:
  "parseLogContent plainEngine mixedLog = Inr mixedResult
   \<and> map fst mixedResult = [''ipAnalysis'', ''userAnalysis'', ''isBreach'', ''stats'']
   \<and> (\<exists>st. map_of mixedResult ''stats'' = Some (Object st)
         \<and> map fst st =
             [''totalBlocks'', ''totalIPs'', ''internalIPs'', ''externalIPs'', ''suspiciousUsers''])"
proof -
  have returned: "parseLogContent plainEngine mixedLog = Inr mixedResult"
    by (rule parse_mixed)
  from returned result_property_names [OF returned] show ?thesis
    by (rule conjI)
qed

text \<open>
  C3 as the specification states it fails: the object returned for a log of three
  blocks has no property \<open>ipRecords\<close> and no property \<open>userRecords\<close>.
\<close>

theorem result_property_names_counterexample:
  "parseLogContent plainEngine mixedLog = Inr mixedResult
   \<and> map fst mixedResult \<noteq> [''ipRecords'', ''userRecords'', ''isBreach'', ''stats'']
   \<and> map_of mixedResult ''ipRecords'' = None
   \<and> map_of mixedResult ''userRecords'' = None"
  by (simp add: parse_mixed) (simp add: mixedResult_def)

text \<open>
  C4. When \<open>parseLogContent\<close> returns, \<open>isBreach\<close> is true if and only if some record
  of \<open>ipAnalysis\<close> has \<open>isInternal = false\<close> or some record of \<open>userAnalysis\<close> has
  \<open>isSuspicious = true\<close>. So it is true whenever \<open>stats.externalIPs\<close> is above 0,
  whatever the users are, and false when every address is internal and no user is
  suspicious.
\<close>

theorem breach_iff:
  assumes "parseLogContent E content = Inr res"
  shows "\<exists>ips users breach st ext.
    map_of res ''ipAnalysis'' = Some (IpList ips)
    \<and> map_of res ''userAnalysis'' = Some (UserList users)
    \<and> map_of res ''isBreach'' = Some (Flag breach)
    \<and> map_of res ''stats'' = Some (Object st)
    \<and> map_of st ''externalIPs'' = Some (Count ext)
    \<and> (breach \<longleftrightarrow> (\<exists>i \<in> set ips. \<not> isInternal i) \<or> (\<exists>user \<in> set users. isSuspicious user))
    \<and> (0 < ext \<longrightarrow> breach)
    \<and> ((\<forall>i \<in> set ips. isInternal i) \<and> (\<forall>user \<in> set users. \<not> isSuspicious user) \<longrightarrow> \<not> breach)"
proof -
  from parseLogContent_Inr [OF assms] obtain ips users where
    res: "res =
        [(''ipAnalysis'', IpList ips),
         (''userAnalysis'', UserList users),
         (''isBreach'', Flag (determineBreach ips users)),
         (''stats'', Object
            [(''totalBlocks'', Count (length (splitIntoBlocks content))),
             (''totalIPs'', Count (length ips)),
             (''internalIPs'', Count (length (filter (\<lambda>i. isInternal i) ips))),
             (''externalIPs'', Count (length (filter (\<lambda>i. \<not> isInternal i) ips))),
             (''suspiciousUsers'', Count (length (filter (\<lambda>user. isSuspicious user) users)))])]"
    by blast
  have ext: "0 < length (filter (\<lambda>i. \<not> isInternal i) ips) \<longleftrightarrow> (\<exists>i \<in> set ips. \<not> isInternal i)"
    by (simp add: filter_empty_conv)
  show ?thesis
    unfolding res using ext
    by (simp add: determineBreach_def list_ex_iff)
qed

theorem breach_witness:
  "parseLogContent plainEngine mixedLog = Inr mixedResult
   \<and> map_of mixedResult ''isBreach'' = Some (Flag True)
   \<and> parseLogContent plainEngine internalLog = Inr internalResult
   \<and> map_of internalResult ''isBreach'' = Some (Flag False)"
proof -
  have mixed: "parseLogContent plainEngine mixedLog = Inr mixedResult"
    by (rule parse_mixed)
  have internal: "parseLogContent plainEngine internalLog = Inr internalResult"
    by (rule parse_internal)
  from breach_iff [OF mixed] obtain breach st ext where
    "map_of mixedResult ''isBreach'' = Some (Flag breach)"
    and "map_of mixedResult ''stats'' = Some (Object st)"
    and "map_of st ''externalIPs'' = Some (Count ext)"
    and "0 < ext \<longrightarrow> breach"
    by blast
  then have a: "map_of mixedResult ''isBreach'' = Some (Flag True)"
    by (auto simp: mixedResult_def)
  from breach_iff [OF internal] obtain ips users breach where
    "map_of internalResult ''ipAnalysis'' = Some (IpList ips)"
    and "map_of internalResult ''userAnalysis'' = Some (UserList users)"
    and "map_of internalResult ''isBreach'' = Some (Flag breach)"
    and "(\<forall>i \<in> set ips. isInternal i) \<and> (\<forall>user \<in> set users. \<not> isSuspicious user) \<longrightarrow> \<not> breach"
    by blast
  then have b: "map_of internalResult ''isBreach'' = Some (Flag False)"
    by (auto simp: internalResult_def)
  from mixed a internal b show ?thesis
    by (intro conjI)
qed

text \<open>
  C10. When \<open>parseLogContent\<close> returns, \<open>totalIPs = internalIPs + externalIPs\<close> (and
  \<open>totalIPs\<close> is the number of records of \<open>ipAnalysis\<close>), \<open>suspiciousUsers\<close> is the
  number of records of \<open>userAnalysis\<close> with \<open>isSuspicious = true\<close>, and \<open>totalBlocks\<close>
  is the number of blocks \<open>splitIntoBlocks\<close> gives for the content.
\<close>

theorem stats_consistent:
  assumes "parseLogContent E content = Inr res"
  shows "\<exists>ips users st blocks total internal external suspicious.
    map_of res ''ipAnalysis'' = Some (IpList ips)
    \<and> map_of res ''userAnalysis'' = Some (UserList users)
    \<and> map_of res ''stats'' = Some (Object st)
    \<and> map_of st ''totalBlocks'' = Some (Count blocks)
    \<and> map_of st ''totalIPs'' = Some (Count total)
    \<and> map_of st ''internalIPs'' = Some (Count internal)
    \<and> map_of st ''externalIPs'' = Some (Count external)
    \<and> map_of st ''suspiciousUsers'' = Some (Count suspicious)
    \<and> total = internal + external
    \<and> total = length ips
    \<and> suspicious = length (filter isSuspicious users)
    \<and> blocks = length (splitIntoBlocks content)"
proof -
  from parseLogContent_Inr [OF assms] obtain ips users where
    res: "res =
        [(''ipAnalysis'', IpList ips),
         (''userAnalysis'', UserList users),
         (''isBreach'', Flag (determineBreach ips users)),
         (''stats'', Object
            [(''totalBlocks'', Count (length (splitIntoBlocks content))),
             (''totalIPs'', Count (length ips)),
             (''internalIPs'', Count (length (filter (\<lambda>i. isInternal i) ips))),
             (''externalIPs'', Count (length (filter (\<lambda>i. \<not> isInternal i) ips))),
             (''suspiciousUsers'', Count (length (filter (\<lambda>user. isSuspicious user) users)))])]"
    by blast
  have "length ips = length (filter (\<lambda>i. isInternal i) ips) + length (filter (\<lambda>i. \<not> isInternal i) ips)"
    by (simp add: sum_length_filter_compl)
  then show ?thesis
    unfolding res by simp
qed

theorem stats_consistent_witness:
  "parseLogContent plainEngine mixedLog = Inr mixedResult
   \<and> (\<exists>ips users st blocks total internal external suspicious.
    map_of mixedResult ''ipAnalysis'' = Some (IpList ips)
    \<and> map_of mixedResult ''userAnalysis'' = Some (UserList users)
    \<and> map_of mixedResult ''stats'' = Some (Object st)
    \<and> map_of st ''totalBlocks'' = Some (Count blocks)
    \<and> map_of st ''totalIPs'' = Some (Count total)
    \<and> map_of st ''internalIPs'' = Some (Count internal)
    \<and> map_of st ''externalIPs'' = Some (Count external)
    \<and> map_of st ''suspiciousUsers'' = Some (Count suspicious)
    \<and> total = internal + external
    \<and> total = length ips
    \<and> suspicious = length (filter isSuspicious users)
    \<and> blocks = length (splitIntoBlocks mixedLog))"
proof -
  have returned: "parseLogContent plainEngine mixedLog = Inr mixedResult"
    by (rule parse_mixed)
  from returned stats_consistent [OF returned] show ?thesis
    by (rule conjI)
qed

section \<open>The records of analyzeIPs\<close>

text \<open>
  C5. \<open>analyzeIPs\<close> returns for every list of blocks, and no two of its records have
  the same address. The first block with an address wins: a later block that starts with
  an address already recorded leaves the array as it is, and whatever blocks follow, the
  records made so far stay, unchanged, at the front of the array.
\<close>

theorem addresses_unique:
  "\<exists>ips. analyzeIPs blocks = Inr ips
     \<and> distinct (map ip ips)
     \<and> (\<forall>block a. execAt ipPattern (hd (splitChar newline block)) = Some a \<and> a \<in> ip ` set ips
          \<longrightarrow> analyzeIPs (blocks @ [block]) = Inr ips)
     \<and> (\<forall>later. \<exists>new. analyzeIPs (blocks @ later) = Inr (ips @ new))"
proof -
  from analyzeIPs_total [of blocks] obtain ips where
    ips: "analyzeIPs blocks = Inr ips" and wf: "wellFormed ips"
    by blast
  have "analyzeIPs (blocks @ [block]) = Inr ips"
    if "execAt ipPattern (hd (splitChar newline block)) = Some a" and "a \<in> ip ` set ips"
    for block a
    using ips analyzeIPsBlock_known [OF that]
    by (simp add: analyzeIPs_def forEachE_append)
  moreover have "\<exists>new. analyzeIPs (blocks @ later) = Inr (ips @ new)" for later
    using analyzeIPs_append [OF ips] .
  ultimately show ?thesis
    using ips wf unfolding wellFormed_def by blast
qed

theorem addresses_unique_witness:
  "analyzeIPs [firstBlock] = Inr [firstRecord]
   \<and> execAt ipPattern (hd (splitChar newline secondBlock)) = Some (ip firstRecord)
   \<and> analyzeIPs ([firstBlock] @ [secondBlock]) = Inr [firstRecord]
   \<and> distinct (map ip [firstRecord])"
proof -
  from addresses_unique [of "[firstBlock]"] obtain ips where
    ips: "analyzeIPs [firstBlock] = Inr ips"
    and unique: "distinct (map ip ips)"
    and later: "\<forall>block a. execAt ipPattern (hd (splitChar newline block)) = Some a \<and> a \<in> ip ` set ips
          \<longrightarrow> analyzeIPs ([firstBlock] @ [block]) = Inr ips"
    by blast
  from ips have eq: "ips = [firstRecord]"
    by (simp add: ips_first)
  have leading: "execAt ipPattern (hd (splitChar newline secondBlock)) = Some (ip firstRecord)"
    by (simp add: leading_second firstRecord_def)
  have "ip firstRecord \<in> ip ` set ips"
    by (simp add: eq)
  with later leading have "analyzeIPs ([firstBlock] @ [secondBlock]) = Inr ips"
    by blast
  with ips unique leading show ?thesis
    unfolding eq by (intro conjI)
qed

text \<open>
  C6. In every record of \<open>analyzeIPs\<close>, \<open>isInternal\<close> is true if and only if the
  address starts with "10."; an address that starts with "172.16." or with "192.168."
  is external.
\<close>

theorem internal_iff_prefix:
  "\<exists>ips. analyzeIPs blocks = Inr ips
     \<and> (\<forall>r \<in> set ips. isInternal r \<longleftrightarrow> startsWith (ip r) (js ''10.''))
     \<and> (\<forall>r \<in> set ips. startsWith (ip r) (js ''172.16.'') \<or> startsWith (ip r) (js ''192.168.'')
           \<longrightarrow> \<not> isInternal r)"
proof -
  from analyzeIPs_total [of blocks] obtain ips where
    ips: "analyzeIPs blocks = Inr ips" and wf: "wellFormed ips"
    by blast
  then show ?thesis
    using not_ten_172 not_ten_192 unfolding wellFormed_def by blast
qed

theorem internal_iff_prefix_witness:
  "analyzeIPs mixedBlocks = Inr mixedIPs
   \<and> list_all (\<lambda>r. isInternal r \<longleftrightarrow> startsWith (ip r) (js ''10.'')) mixedIPs
   \<and> map isInternal mixedIPs = [True, False, False]
   \<and> startsWith (ip (mixedIPs ! 1)) (js ''172.16.'')
   \<and> startsWith (ip (mixedIPs ! 2)) (js ''192.168.'')"
proof -
  from internal_iff_prefix [of mixedBlocks] obtain ips where
    ips: "analyzeIPs mixedBlocks = Inr ips"
    and rule: "\<forall>r \<in> set ips. isInternal r \<longleftrightarrow> startsWith (ip r) (js ''10.'')"
    by blast
  from ips have eq: "ips = mixedIPs"
    by (simp add: ips_mixed)
  from rule have "list_all (\<lambda>r. isInternal r \<longleftrightarrow> startsWith (ip r) (js ''10.'')) mixedIPs"
    unfolding eq by (simp only: list_all_iff)
  moreover have "map isInternal mixedIPs = [True, False, False]"
    by (simp add: mixedIPs_def)
  moreover have "startsWith (ip (mixedIPs ! 1)) (js ''172.16.'')"
    and "startsWith (ip (mixedIPs ! 2)) (js ''192.168.'')"
    by (simp_all add: mixedIPs_def startsWith_def js_def)
  ultimately show ?thesis
    using ips unfolding eq by (intro conjI)
qed

section \<open>The blocks of splitIntoBlocks\<close>

text \<open>
  C8. A content without a blank-line separator (no two line feeds with only white space
  between them) gives exactly one block, the trimmed content, unless it is empty or white
  space only, which gives no block. White space only gives no block with separators too.
  The empty content gives \<open>totalBlocks = 0\<close>, no IP record, no user record and
  \<open>isBreach = false\<close>.
\<close>

theorem single_block:
  "((\<nexists>u v w. content = u @ newline # v @ newline # w \<and> list_all isSpace v) \<longrightarrow>
      splitIntoBlocks content = (if list_all isSpace content then [] else [trim content]))
   \<and> (list_all isSpace content \<longrightarrow> splitIntoBlocks content = [])
   \<and> parseLogContent E [] =
       Inr [(''ipAnalysis'', IpList []),
            (''userAnalysis'', UserList []),
            (''isBreach'', Flag False),
            (''stats'', Object
               [(''totalBlocks'', Count 0), (''totalIPs'', Count 0), (''internalIPs'', Count 0),
                (''externalIPs'', Count 0), (''suspiciousUsers'', Count 0)])]"
proof (intro conjI impI)
  assume "\<nexists>u v w. content = u @ newline # v @ newline # w \<and> list_all isSpace v"
  then have "regexSplit blockSeparator content = [content]"
    by (rule regexSplit_no_separator)
  then show "splitIntoBlocks content = (if list_all isSpace content then [] else [trim content])"
    using trim_all_space [of content] trim_not_Nil [of content]
    by (auto simp: splitIntoBlocks_def)
next
  assume "list_all isSpace content"
  then show "splitIntoBlocks content = []"
    by (rule splitIntoBlocks_space)
next
  show "parseLogContent E [] =
       Inr [(''ipAnalysis'', IpList []),
            (''userAnalysis'', UserList []),
            (''isBreach'', Flag False),
            (''stats'', Object
               [(''totalBlocks'', Count 0), (''totalIPs'', Count 0), (''internalIPs'', Count 0),
                (''externalIPs'', Count 0), (''suspiciousUsers'', Count 0)])]"
    by (rule parse_empty)
qed

theorem single_block_witness:
  "splitIntoBlocks twoLines = [twoLines]
   \<and> list_all isSpace blankLines
   \<and> splitIntoBlocks blankLines = []"
proof -
  have space: "list_all isSpace blankLines"
    by (simp add: blankLines_def js_def isSpace_def)
  have "\<not> list_all isSpace twoLines"
    by (simp add: twoLines_def js_def isSpace_def)
  moreover have "trim twoLines = twoLines"
    by (simp add: twoLines_def trim_def js_def isSpace_def)
  ultimately have "splitIntoBlocks twoLines = [twoLines]"
    using single_block [of twoLines plainEngine] twoLines_no_separator by simp
  moreover have "splitIntoBlocks blankLines = []"
    using single_block [of blankLines plainEngine] space by blast
  ultimately show ?thesis
    using space by (intro conjI)
qed

section \<open>A log on which the analysis throws\<close>

text \<open>
  C9 does not hold of the program: the analysis does not complete on every input. On the
  log \<^verbatim>\<open>user_id=constructor 10:30:45\<close> the value of
  \<open>userRequests[userId]\<close> is the function \<open>Object\<close>, inherited from
  \<open>Object.prototype\<close>. It is truthy, so no array is stored, and the call of its
  \<open>push\<close> throws a TypeError, with every engine. (\<open>analyzeUserLine_absent\<close> and
  \<open>parseLogContent_Inl\<close> show the part of C9 that does hold: a missing pattern never
  makes the analysis throw.)
\<close>

theorem reserved_user_id_throws: "parseLogContent E reservedLog = Inl TypeError"
  by (simp add: parseLogContent_def split_reserved ips_reserved users_reserved)

end
